theory Spec2Isabelle
  imports Complex_Main "HOL-Library.AList" "HOL-Library.Sublist"
begin

section \<open>Data model (src/models.py)\<close>

text \<open>
  The pydantic models of \<^verbatim>\<open>models.py\<close>. A Python \<^verbatim>\<open>float\<close> is modelled as a real
  number (the stages only compare and copy confidences and compute \<^verbatim>\<open>1.0 - score\<close>),
  a \<^verbatim>\<open>str\<close> as a \<open>string\<close>, \<^verbatim>\<open>Optional[str]\<close> as \<open>string option\<close>, a \<^verbatim>\<open>datetime\<close>
  (only ever copied) as its ISO string.
  The field \<^verbatim>\<open>type\<close> of \<^verbatim>\<open>Entity\<close> and of \<^verbatim>\<open>StockImpact\<close> is declared \<^verbatim>\<open>str\<close> in
  the source, so it is a string here as well. Field names carry a prefix because the
  two models share the names \<^verbatim>\<open>type\<close> and \<^verbatim>\<open>confidence\<close>.
\<close>

record entity =
  ent_text :: string
  ent_type :: string
  ent_confidence :: real

record stock_impact =
  imp_symbol :: string
  imp_confidence :: real
  imp_type :: string
  imp_reasoning :: "string option"

record news_article =
  article_id :: string
  title :: string
  content :: string
  source :: string
  published_at :: string
  url :: "string option"

text \<open>
  The values that the stages store in \<^verbatim>\<open>processing_metadata\<close>: a similarity (float),
  a count (int) or the \<^verbatim>\<open>stored\<close> flag (bool). The dict itself is an association
  list, updated with \<open>AList.update\<close>.
\<close>

datatype meta_value = MFloat real | MInt nat | MBool bool

record agent_state =
  article :: news_article
  is_duplicate :: bool
  duplicate_of :: "string option"
  entities :: "entity list"
  stock_impacts :: "stock_impact list"
  processing_metadata :: "(string \<times> meta_value) list"
  error :: "string option"

text \<open>\<^verbatim>\<open>AgentState(article=article)\<close>: every other field takes its default.\<close>

definition initial_state :: "news_article \<Rightarrow> agent_state" where
  "initial_state a =
     \<lparr>article = a, is_duplicate = False, duplicate_of = None, entities = [],
      stock_impacts = [], processing_metadata = [], error = None\<rparr>"

text \<open>
  The rows of the three tables. The columns \<^verbatim>\<open>id\<close>, \<^verbatim>\<open>created_at\<close> and \<^verbatim>\<open>updated_at\<close>
  are filled by the database and are left out.
\<close>

datatype db_row =
    NewsArticleDB string string string string string "string option" bool "string option"
      \<comment> \<open>article\_id, title, content, source, published\_at, url, is\_duplicate, duplicate\_of\<close>
  | ExtractedEntityDB string string string real
      \<comment> \<open>article\_id, entity\_text, entity\_type, confidence\<close>
  | StockImpactDB string string real string "string option"
      \<comment> \<open>article\_id, stock\_symbol, confidence, impact\_type, reasoning\<close>

record database =
  db_news_articles :: "db_row list"
  db_extracted_entities :: "db_row list"
  db_stock_impacts :: "db_row list"

text \<open>A langchain \<^verbatim>\<open>Document\<close>, and the two Chroma collections, keyed by document id.\<close>

record document =
  page_content :: string
  metadata :: "(string \<times> string) list"

record vector_store =
  news_collection :: "(string \<times> document) list"
  entity_collection :: "(string \<times> document) list"

text \<open>What outlives a processing state: the database and the similarity index.\<close>

record world =
  db :: database
  vstore :: vector_store

text \<open>
  A parsed JSON value, as Python holds it: \<^verbatim>\<open>None\<close>, a bool, an int, a float, a str, a
  list or a dict (insertion ordered, one entry per key).
\<close>

datatype json =
    JNull
  | JBool bool
  | JInt int
  | JFloat real
  | JStr string
  | JArr "json list"
  | JObj "(string \<times> json) list"

section \<open>External capabilities\<close>

text \<open>
  The calls that leave the repository. Each is a function of its arguments that either
  returns or raises; \<open>Inl msg\<close> is an exception whose \<^verbatim>\<open>str(e)\<close> is \<open>msg\<close>.
  \<^item> \<open>similarity_search_with_score\<close>: Chroma's nearest-neighbour query on a collection
    (query text, \<open>k\<close>), returning documents with their distance;
  \<^item> \<open>embedding_error\<close>: whether embedding the given texts raises when documents are
    added to a collection;
  \<^item> \<open>nlp_ents\<close>: the spaCy pipeline, returning \<^verbatim>\<open>(ent.text, ent.label_)\<close> for each entity;
  \<^item> \<open>extraction_chain\<close>: \<^verbatim>\<open>(extraction_prompt | llm | parser).invoke\<close> on title and
    content, returning whatever object the JSON output parser makes of the answer;
  \<^item> \<open>entity_validation_error\<close>: the \<^verbatim>\<open>str(e)\<close> of the pydantic validation error that
    \<^verbatim>\<open>Entity(text=v, ...)\<close> raises for a value \<open>v\<close> that is not a string;
  \<^item> \<open>impact_chain\<close>: the body of the \<^verbatim>\<open>try\<close> of \<^verbatim>\<open>analyze_with_llm\<close>: the chain invoked
    on title, content and the four joined entity lists, and its items turned into
    \<^verbatim>\<open>StockImpact\<close> objects (the call, the JSON parser or the validation may raise);
  \<^item> \<open>flush_error\<close>: whether the database rejects the transaction that inserts the given
    rows (a constraint violation, a lost connection).
\<close>

record capabilities =
  similarity_search_with_score ::
    "(string \<times> document) list \<Rightarrow> string \<Rightarrow> nat \<Rightarrow> string + (document \<times> real) list"
  embedding_error :: "string list \<Rightarrow> string option"
  nlp_ents :: "string \<Rightarrow> string + (string \<times> string) list"
  extraction_chain :: "string \<Rightarrow> string \<Rightarrow> string + json"
  entity_validation_error :: "json \<Rightarrow> string"
  impact_chain ::
    "string \<Rightarrow> string \<Rightarrow> string \<Rightarrow> string \<Rightarrow> string \<Rightarrow> string \<Rightarrow> string + stock_impact list"
  flush_error :: "database \<Rightarrow> db_row list \<Rightarrow> string option"

section \<open>Strings\<close>

text \<open>
  \<^verbatim>\<open>str.lower\<close>, \<^verbatim>\<open>str.upper\<close> on the ASCII letters (a \<open>char\<close> is a byte; other
  bytes are left as they are), the substring test \<^verbatim>\<open>sub in s\<close>, \<^verbatim>\<open>sep.join\<close> and
  \<^verbatim>\<open>str(n)\<close> for a natural number.
\<close>

definition char_lower :: "char \<Rightarrow> char" where
  "char_lower c =
     (case map_of (zip ''ABCDEFGHIJKLMNOPQRSTUVWXYZ'' ''abcdefghijklmnopqrstuvwxyz'') c of
        None \<Rightarrow> c | Some d \<Rightarrow> d)"

definition char_upper :: "char \<Rightarrow> char" where
  "char_upper c =
     (case map_of (zip ''abcdefghijklmnopqrstuvwxyz'' ''ABCDEFGHIJKLMNOPQRSTUVWXYZ'') c of
        None \<Rightarrow> c | Some d \<Rightarrow> d)"

definition lower :: "string \<Rightarrow> string" where
  "lower s = map char_lower s"

definition upper :: "string \<Rightarrow> string" where
  "upper s = map char_upper s"

fun str_in :: "string \<Rightarrow> string \<Rightarrow> bool" where
  "str_in sub [] = (sub = [])"
| "str_in sub (c # cs) = (prefix sub (c # cs) \<or> str_in sub cs)"

fun join :: "string \<Rightarrow> string list \<Rightarrow> string" where
  "join sep [] = []"
| "join sep [x] = x"
| "join sep (x # y # ys) = x @ sep @ join sep (y # ys)"

fun str_of_nat :: "nat \<Rightarrow> string" where
  "str_of_nat n =
     (if n < 10 then [char_of (48 + n)]
      else str_of_nat (n div 10) @ [char_of (48 + n mod 10)])"

section \<open>Similarity index (src/vector\_store.py)\<close>

text \<open>
  \<^verbatim>\<open>Chroma.add_documents(docs, ids=ids)\<close>: the texts are embedded (which may raise), then
  each document is stored under its id, replacing a document that has the id already.
\<close>

definition add_documents ::
  "capabilities \<Rightarrow> (string \<times> document) list \<Rightarrow> document list \<Rightarrow> string list \<Rightarrow>
     string + (string \<times> document) list" where
  "add_documents caps coll docs ids =
     (case embedding_error caps (map page_content docs) of
        Some e \<Rightarrow> Inl e
      | None \<Rightarrow> Inr (foldl (\<lambda>c (i, d). AList.update i d c) coll (zip ids docs)))"

text \<open>
  \<^verbatim>\<open>add_article\<close> logs and re-raises: the result is the store as the call leaves it
  and the exception, if any. The article's document is added before the entity
  documents, so it stays when only the second call raises.
\<close>

definition add_article ::
  "capabilities \<Rightarrow> vector_store \<Rightarrow> news_article \<Rightarrow> string list \<Rightarrow>
     vector_store \<times> string option" where
  "add_article caps vs a ents =
     (let doc = \<lparr>page_content = title a @ [CHR 0x0A, CHR 0x0A] @ content a,
                 metadata = [(''article_id'', article_id a), (''title'', title a),
                             (''source'', source a), (''published_at'', published_at a),
                             (''url'', case url a of None \<Rightarrow> [] | Some u \<Rightarrow> u)]\<rparr>
      in case add_documents caps (news_collection vs) [doc] [article_id a] of
           Inl e \<Rightarrow> (vs, Some e)
         | Inr nc \<Rightarrow>
             (let vs1 = vs\<lparr>news_collection := nc\<rparr> in
              if ents \<noteq> [] then
                (let entity_docs =
                       map (\<lambda>ent. \<lparr>page_content = ent,
                                    metadata = [(''article_id'', article_id a), (''entity'', ent)]\<rparr>)
                         ents;
                     ids = map (\<lambda>i. article_id a @ ''_'' @ str_of_nat i) [0..<length ents]
                 in case add_documents caps (entity_collection vs1) entity_docs ids of
                      Inl e \<Rightarrow> (vs1, Some e)
                    | Inr ec \<Rightarrow> (vs1\<lparr>entity_collection := ec\<rparr>, None))
              else (vs1, None)))"

text \<open>
  The list comprehension of \<^verbatim>\<open>find_duplicates\<close>. The condition reads
  \<^verbatim>\<open>doc.metadata["article_id"]\<close> only when the similarity reaches the threshold
  (\<^verbatim>\<open>and\<close> short-circuits); a document without that key raises KeyError there, which
  is \<open>None\<close> here.
\<close>

fun duplicate_candidates ::
  "real \<Rightarrow> string \<Rightarrow> (document \<times> real) list \<Rightarrow> (string \<times> real) list option" where
  "duplicate_candidates threshold own_id [] = Some []"
| "duplicate_candidates threshold own_id ((doc, score) # results) =
     (if 1 - score \<ge> threshold then
        (case map_of (metadata doc) ''article_id'' of
           None \<Rightarrow> None
         | Some aid \<Rightarrow>
             if aid \<noteq> own_id
             then map_option (\<lambda>ds. (aid, 1 - score) # ds)
                    (duplicate_candidates threshold own_id results)
             else duplicate_candidates threshold own_id results)
      else duplicate_candidates threshold own_id results)"

text \<open>
  \<^verbatim>\<open>find_duplicates(article, threshold=None)\<close>. When no threshold is passed the method
  reads the global name \<^verbatim>\<open>SIMILARITY_THRESHOLD\<close>, before its \<^verbatim>\<open>try\<close>. The parameter
  \<open>glob\<close> is what the module's global namespace binds that name to; an unbound name
  raises NameError, which is not caught in the method. Everything after that is inside
  the \<^verbatim>\<open>try\<close>, whose handler logs and returns the empty list.
\<close>

definition find_duplicates ::
  "capabilities \<Rightarrow> real option \<Rightarrow> vector_store \<Rightarrow> news_article \<Rightarrow> real option \<Rightarrow>
     string + (string \<times> real) list" where
  "find_duplicates caps glob vs a threshold =
     (case (case threshold of
              Some t \<Rightarrow> Inr t
            | None \<Rightarrow>
                (case glob of
                   None \<Rightarrow> Inl (''name '' @ [CHR 0x27] @ ''SIMILARITY_THRESHOLD'' @ [CHR 0x27]
                                 @ '' is not defined'')
                 | Some t \<Rightarrow> Inr t)) of
        Inl e \<Rightarrow> Inl e
      | Inr t \<Rightarrow>
          (case similarity_search_with_score caps (news_collection vs)
                  (title a @ [CHR 0x0A, CHR 0x0A] @ content a) 5 of
             Inl e \<Rightarrow> Inr []
           | Inr results \<Rightarrow>
               (case duplicate_candidates t (article_id a) results of
                  None \<Rightarrow> Inr []
                | Some duplicates \<Rightarrow> Inr duplicates)))"

text \<open>
  \<^verbatim>\<open>vector_store.py\<close> imports \<^verbatim>\<open>config\<close> from \<^verbatim>\<open>src.config\<close> and nothing else of that
  module; the threshold lives in \<^verbatim>\<open>config.SIMILARITY_THRESHOLD\<close>. No statement of
  \<^verbatim>\<open>vector_store.py\<close> binds the bare name \<^verbatim>\<open>SIMILARITY_THRESHOLD\<close>.
\<close>

definition vector_store_SIMILARITY_THRESHOLD :: "real option" where
  "vector_store_SIMILARITY_THRESHOLD = None"

section \<open>Deduplication stage (src/agents/deduplication\_agent.py)\<close>

text \<open>
  \<^verbatim>\<open>process\<close> calls \<^verbatim>\<open>find_duplicates(article)\<close> without a threshold and takes
  \<^verbatim>\<open>duplicates[0]\<close>. Its handler catches every exception, stores the message in the
  incoming state and returns that state.
\<close>

definition DeduplicationAgent_process ::
  "capabilities \<Rightarrow> real option \<Rightarrow> vector_store \<Rightarrow> agent_state \<Rightarrow> agent_state" where
  "DeduplicationAgent_process caps glob vs st =
     (case find_duplicates caps glob vs (article st) None of
        Inl e \<Rightarrow> st\<lparr>error := Some e\<rparr>
      | Inr [] \<Rightarrow> st\<lparr>is_duplicate := False\<rparr>
      | Inr ((duplicate_id, similarity) # _) \<Rightarrow>
          st\<lparr>is_duplicate := True, duplicate_of := Some duplicate_id,
             processing_metadata :=
               AList.update ''duplicate_similarity'' (MFloat similarity) (processing_metadata st)\<rparr>)"

section \<open>Entity extraction stage (src/agents/entity\_extraction\_agent.py)\<close>

definition mk_entity :: "string \<Rightarrow> string \<Rightarrow> real \<Rightarrow> entity" where
  "mk_entity t ty c = \<lparr>ent_text = t, ent_type = ty, ent_confidence = c\<rparr>"

text \<open>The two tables of \<^verbatim>\<open>__init__\<close>, in the order the dict and the list are written.\<close>

definition sector_keywords :: "(string \<times> string list) list" where
  "sector_keywords =
     [(''Banking'', [''bank'', ''banking'', ''credit'', ''loan'', ''mortgage'']),
      (''Technology'', [''tech'', ''software'', ''ai'', ''cloud'', ''digital'']),
      (''Pharmaceutical'', [''pharma'', ''drug'', ''medicine'', ''healthcare'']),
      (''Energy'', [''oil'', ''gas'', ''energy'', ''power'', ''renewable'']),
      (''Financial Services'', [''finance'', ''investment'', ''insurance'', ''asset management'']),
      (''Automotive'', [''auto'', ''car'', ''vehicle'', ''automotive'']),
      (''Telecommunications'', [''telecom'', ''mobile'', ''network'', ''5g'']),
      (''Retail'', [''retail'', ''consumer'', ''e-commerce'', ''shopping''])]"

definition regulator_keywords :: "string list" where
  "regulator_keywords =
     [''RBI'', ''Reserve Bank'', ''SEBI'', ''SEC'', ''Federal Reserve'', ''Fed'',
      ''Central Bank'', ''Monetary Authority'', ''Financial Authority'']"

text \<open>spaCy: an \<^verbatim>\<open>ORG\<close> span is a COMPANY, a \<^verbatim>\<open>PERSON\<close> span a PERSON, both at 0.8.\<close>

definition extract_with_spacy :: "capabilities \<Rightarrow> string \<Rightarrow> string + entity list" where
  "extract_with_spacy caps text =
     (case nlp_ents caps text of
        Inl e \<Rightarrow> Inl e
      | Inr ents \<Rightarrow>
          Inr (concat (map (\<lambda>(t, label).
                 if label = ''ORG'' then [mk_entity t ''COMPANY'' 0.8]
                 else if label = ''PERSON'' then [mk_entity t ''PERSON'' 0.8]
                 else []) ents)))"

text \<open>One SECTOR entity per sector with a keyword in the lowercased text (\<^verbatim>\<open>break\<close>).\<close>

definition extract_sectors :: "string \<Rightarrow> entity list" where
  "extract_sectors text =
     (let text_lower = lower text in
      concat (map (\<lambda>(sector, keywords).
        if list_ex (\<lambda>keyword. str_in keyword text_lower) keywords
        then [mk_entity sector ''SECTOR'' 0.7] else []) sector_keywords))"

text \<open>
  \<^verbatim>\<open>re.search(r'\b' + re.escape(regulator) + r'\b', text, re.IGNORECASE)\<close>: the
  regulator's name occurs in the text, letters compared without case, with a word
  boundary on each side. A word character is a letter, a digit or the underscore.
\<close>

definition is_word_char :: "char \<Rightarrow> bool" where
  "is_word_char c \<longleftrightarrow>
     c \<in> set ''abcdefghijklmnopqrstuvwxyzABCDEFGHIJKLMNOPQRSTUVWXYZ0123456789_''"

definition word_boundary :: "string \<Rightarrow> nat \<Rightarrow> bool" where
  "word_boundary s i \<longleftrightarrow>
     ((0 < i \<and> i \<le> length s \<and> is_word_char (s ! (i - 1))) \<noteq> (i < length s \<and> is_word_char (s ! i)))"

definition regulator_search :: "string \<Rightarrow> string \<Rightarrow> bool" where
  "regulator_search regulator text =
     list_ex (\<lambda>i. i + length regulator \<le> length text \<and>
                  lower (take (length regulator) (drop i text)) = lower regulator \<and>
                  word_boundary text i \<and> word_boundary text (i + length regulator))
       [0..<Suc (length text)]"

definition extract_regulators :: "string \<Rightarrow> entity list" where
  "extract_regulators text =
     concat (map (\<lambda>regulator.
       if regulator_search regulator text then [mk_entity regulator ''REGULATOR'' 0.9] else [])
       regulator_keywords)"

text \<open>The language model: an exception becomes the dict of five empty lists.\<close>

definition extract_with_llm :: "capabilities \<Rightarrow> string \<Rightarrow> string \<Rightarrow> json" where
  "extract_with_llm caps ttl cnt =
     (case extraction_chain caps ttl cnt of
        Inr result \<Rightarrow> result
      | Inl e \<Rightarrow> JObj [(''companies'', JArr []), (''sectors'', JArr []), (''regulators'', JArr []),
                       (''people'', JArr []), (''events'', JArr [])])"

text \<open>
  What \<^verbatim>\<open>process\<close> does with the answer, inside its own \<^verbatim>\<open>try\<close>:
  \<^verbatim>\<open>for x in llm_entities.get(key, []): entities.append(Entity(text=x, ...))\<close>.
  \<^item> \<^verbatim>\<open>llm_entities.get\<close> exists on a dict only; any other value raises AttributeError;
  \<^item> the \<^verbatim>\<open>for\<close> iterates over a list, over the characters of a str and over the keys of
    a dict; any other value raises TypeError;
  \<^item> \<^verbatim>\<open>Entity(text=x, ...)\<close> accepts a str and raises a validation error otherwise.
\<close>

definition py_type_name :: "json \<Rightarrow> string" where
  "py_type_name v =
     (case v of
        JNull \<Rightarrow> ''NoneType'' | JBool b \<Rightarrow> ''bool'' | JInt i \<Rightarrow> ''int'' | JFloat r \<Rightarrow> ''float''
      | JStr s \<Rightarrow> ''str'' | JArr xs \<Rightarrow> ''list'' | JObj d \<Rightarrow> ''dict'')"

definition quoted :: "string \<Rightarrow> string" where
  "quoted s = [CHR 0x27] @ s @ [CHR 0x27]"

definition py_get :: "json \<Rightarrow> string \<Rightarrow> string + json" where
  "py_get v k =
     (case v of
        JObj d \<Rightarrow> Inr (case map_of d k of None \<Rightarrow> JArr [] | Some x \<Rightarrow> x)
      | _ \<Rightarrow> Inl (quoted (py_type_name v) @ '' object has no attribute '' @ quoted ''get''))"

definition py_iter :: "json \<Rightarrow> string + json list" where
  "py_iter v =
     (case v of
        JArr xs \<Rightarrow> Inr xs
      | JStr s \<Rightarrow> Inr (map (\<lambda>c. JStr [c]) s)
      | JObj d \<Rightarrow> Inr (map (\<lambda>(k, x). JStr k) d)
      | _ \<Rightarrow> Inl (quoted (py_type_name v) @ '' object is not iterable''))"

fun llm_items_entities ::
  "capabilities \<Rightarrow> string \<Rightarrow> real \<Rightarrow> json list \<Rightarrow> string + entity list" where
  "llm_items_entities caps ty c [] = Inr []"
| "llm_items_entities caps ty c (v # vs) =
     (case v of
        JStr s \<Rightarrow>
          (case llm_items_entities caps ty c vs of
             Inl e \<Rightarrow> Inl e
           | Inr es \<Rightarrow> Inr (mk_entity s ty c # es))
      | _ \<Rightarrow> Inl (entity_validation_error caps v))"

definition llm_category ::
  "capabilities \<Rightarrow> json \<Rightarrow> string \<Rightarrow> string \<Rightarrow> real \<Rightarrow> string + entity list" where
  "llm_category caps llm_entities key ty c =
     (case py_get llm_entities key of
        Inl e \<Rightarrow> Inl e
      | Inr v \<Rightarrow>
          (case py_iter v of
             Inl e \<Rightarrow> Inl e
           | Inr items \<Rightarrow> llm_items_entities caps ty c items))"

text \<open>The five loops in their order; the first exception ends them.\<close>

definition llm_extracted_entities :: "capabilities \<Rightarrow> json \<Rightarrow> string + entity list" where
  "llm_extracted_entities caps llm_entities =
     (case llm_category caps llm_entities ''companies'' ''COMPANY'' 0.9 of
        Inl e \<Rightarrow> Inl e
      | Inr companies \<Rightarrow>
     (case llm_category caps llm_entities ''sectors'' ''SECTOR'' 0.9 of
        Inl e \<Rightarrow> Inl e
      | Inr sectors \<Rightarrow>
     (case llm_category caps llm_entities ''regulators'' ''REGULATOR'' 0.95 of
        Inl e \<Rightarrow> Inl e
      | Inr regulators \<Rightarrow>
     (case llm_category caps llm_entities ''people'' ''PERSON'' 0.85 of
        Inl e \<Rightarrow> Inl e
      | Inr people \<Rightarrow>
     (case llm_category caps llm_entities ''events'' ''EVENT'' 0.8 of
        Inl e \<Rightarrow> Inl e
      | Inr events \<Rightarrow> Inr (companies @ sectors @ regulators @ people @ events))))))"

text \<open>
  \<^verbatim>\<open>merge_entities\<close>. The dict \<^verbatim>\<open>seen\<close> and the list \<^verbatim>\<open>merged\<close> hold the same objects:
  \<^verbatim>\<open>seen[key].confidence = ...\<close> changes the entry of \<^verbatim>\<open>merged\<close> in place. Here \<open>seen\<close>
  maps a key to the position of its object in \<open>merged\<close>, and the assignment is a list
  update at that position. The loop state is the pair \<open>(seen, merged)\<close>.
\<close>

definition entity_key :: "entity \<Rightarrow> string \<times> string" where
  "entity_key e = (lower (ent_text e), ent_type e)"

definition merge_entities_step ::
  "((string \<times> string) \<times> nat) list \<times> entity list \<Rightarrow> entity \<Rightarrow>
     ((string \<times> string) \<times> nat) list \<times> entity list" where
  "merge_entities_step sm e =
     (case sm of (seen, merged) \<Rightarrow>
        (case map_of seen (entity_key e) of
           None \<Rightarrow> (AList.update (entity_key e) (length merged) seen, merged @ [e])
         | Some i \<Rightarrow>
             if ent_confidence e > ent_confidence (merged ! i)
             then (seen, merged[i := (merged ! i)\<lparr>ent_confidence := ent_confidence e\<rparr>])
             else (seen, merged)))"

definition merge_entities :: "entity list \<Rightarrow> entity list" where
  "merge_entities es = snd (foldl merge_entities_step ([], []) es)"

text \<open>
  \<^verbatim>\<open>process\<close>. Inside its \<^verbatim>\<open>try\<close> the spaCy call can raise, and so can the loops over
  the language model's answer (the call itself has its own handler); the handler
  stores the message in the incoming state and returns that state.
\<close>

definition EntityExtractionAgent_process :: "capabilities \<Rightarrow> agent_state \<Rightarrow> agent_state" where
  "EntityExtractionAgent_process caps st =
     (if is_duplicate st then st
      else
        (let a = article st; full_text = title a @ '' '' @ content a in
         case extract_with_spacy caps full_text of
           Inl e \<Rightarrow> st\<lparr>error := Some e\<rparr>
         | Inr spacy_entities \<Rightarrow>
             (case llm_extracted_entities caps (extract_with_llm caps (title a) (content a)) of
                Inl e \<Rightarrow> st\<lparr>error := Some e\<rparr>
              | Inr llm_entities \<Rightarrow>
                  (let es = spacy_entities @ extract_sectors full_text
                            @ extract_regulators full_text @ llm_entities;
                       merged = merge_entities es
                   in st\<lparr>entities := merged,
                         processing_metadata :=
                           AList.update ''entity_count'' (MInt (length merged))
                             (processing_metadata st)\<rparr>))))"

section \<open>Impact analysis stage (src/agents/stock\_impact\_agent.py)\<close>

definition company_symbols :: "(string \<times> string) list" where
  "company_symbols =
     [(''HDFC Bank'', ''HDFCBANK''), (''ICICI Bank'', ''ICICIBANK''), (''State Bank'', ''SBIN''),
      (''Reliance'', ''RELIANCE''), (''TCS'', ''TCS''), (''Infosys'', ''INFY''),
      (''Wipro'', ''WIPRO''), (''Asian Paints'', ''ASIANPAINT''), (''ITC'', ''ITC''),
      (''Larsen'', ''LT'')]"

definition sector_stocks :: "(string \<times> string list) list" where
  "sector_stocks =
     [(''Banking'', [''HDFCBANK'', ''ICICIBANK'', ''SBIN'', ''AXISBANK'', ''KOTAKBANK'']),
      (''Technology'', [''TCS'', ''INFY'', ''WIPRO'', ''TECHM'', ''HCLTECH'']),
      (''Pharmaceutical'', [''SUNPHARMA'', ''DRREDDY'', ''CIPLA'', ''DIVISLAB'']),
      (''Energy'', [''RELIANCE'', ''ONGC'', ''BPCL'', ''IOC'']),
      (''Financial Services'', [''BAJFINANCE'', ''BAJAJFINSV'', ''HDFCLIFE'', ''SBILIFE'']),
      (''Automotive'', [''MARUTI'', ''M&M'', ''TATAMOTORS'', ''HEROMOTOCO''])]"

text \<open>\<^verbatim>\<open>config.CONFIDENCE_LEVELS\<close> (src/config.py), the three levels the stage reads.\<close>

definition CONFIDENCE_direct :: real where "CONFIDENCE_direct = 1.0"
definition CONFIDENCE_sector_high :: real where "CONFIDENCE_sector_high = 0.8"
definition CONFIDENCE_regulatory :: real where "CONFIDENCE_regulatory = 0.5"

text \<open>
  \<^verbatim>\<open>map_company_to_symbol\<close>: the loop over the table returns at the first name that
  contains the company or is contained in it, both lowercased; after the loop the
  symbol is derived from the company's name.
\<close>

fun map_company_loop :: "(string \<times> string) list \<Rightarrow> string \<Rightarrow> string" where
  "map_company_loop [] company =
     take 10 (filter (\<lambda>c. c \<noteq> CHR '' '') (upper company))"
| "map_company_loop ((name, symbol) # rest) company =
     (if str_in (lower name) (lower company) \<or> str_in (lower company) (lower name)
      then symbol
      else map_company_loop rest company)"

definition map_company_to_symbol :: "string \<Rightarrow> string" where
  "map_company_to_symbol company = map_company_loop company_symbols company"

fun get_direct_impacts :: "entity list \<Rightarrow> stock_impact list" where
  "get_direct_impacts [] = []"
| "get_direct_impacts (e # es) =
     (if ent_type e = ''COMPANY''
      then \<lparr>imp_symbol = map_company_to_symbol (ent_text e),
            imp_confidence = CONFIDENCE_direct,
            imp_type = ''direct'',
            imp_reasoning =
              Some (''Company '' @ [CHR 0x27] @ ent_text e @ [CHR 0x27] @ '' directly mentioned'')\<rparr>
           # get_direct_impacts es
      else get_direct_impacts es)"

definition get_sector_impacts :: "entity list \<Rightarrow> stock_impact list" where
  "get_sector_impacts es =
     concat (map (\<lambda>e.
       if ent_type e = ''SECTOR'' then
         (case map_of sector_stocks (ent_text e) of
            None \<Rightarrow> []
          | Some symbols \<Rightarrow>
              map (\<lambda>symbol. \<lparr>imp_symbol = symbol, imp_confidence = CONFIDENCE_sector_high,
                              imp_type = ''sector'',
                              imp_reasoning =
                                Some (''Sector '' @ [CHR 0x27] @ ent_text e @ [CHR 0x27]
                                      @ '' impacted'')\<rparr>) symbols)
       else []) es)"

definition get_regulatory_impacts :: "entity list \<Rightarrow> stock_impact list" where
  "get_regulatory_impacts es =
     (case filter (\<lambda>e. ent_type e = ''REGULATOR'') es of
        [] \<Rightarrow> []
      | regulator # _ \<Rightarrow>
          concat (map (\<lambda>sector.
            case map_of sector_stocks (ent_text sector) of
              None \<Rightarrow> []
            | Some symbols \<Rightarrow>
                map (\<lambda>symbol. \<lparr>imp_symbol = symbol, imp_confidence = CONFIDENCE_regulatory,
                                imp_type = ''regulatory'',
                                imp_reasoning =
                                  Some (''Regulatory action by '' @ ent_text regulator
                                        @ '' affecting '' @ ent_text sector)\<rparr>) symbols)
            (filter (\<lambda>e. ent_type e = ''SECTOR'') es)))"

text \<open>\<^verbatim>\<open>", ".join(xs) if xs else "None"\<close>.\<close>

definition join_or_None :: "string list \<Rightarrow> string" where
  "join_or_None xs = (if xs \<noteq> [] then join '', '' xs else ''None'')"

definition analyze_with_llm ::
  "capabilities \<Rightarrow> string \<Rightarrow> string \<Rightarrow> entity list \<Rightarrow> stock_impact list" where
  "analyze_with_llm caps ttl cnt es =
     (let texts_of = (\<lambda>ty. map ent_text (filter (\<lambda>e. ent_type e = ty) es)) in
      case impact_chain caps ttl cnt
             (join_or_None (texts_of ''COMPANY'')) (join_or_None (texts_of ''SECTOR''))
             (join_or_None (texts_of ''REGULATOR'')) (join_or_None (texts_of ''EVENT'')) of
        Inr result \<Rightarrow> result
      | Inl e \<Rightarrow> [])"

text \<open>
  \<^verbatim>\<open>merge_impacts\<close>. \<^verbatim>\<open>seen\<close> is a Python dict: insertion ordered, and an assignment to
  a key that is already present keeps the key's position. That is \<open>AList.update\<close> on an
  association list; \<^verbatim>\<open>list(seen.values())\<close> is \<open>map snd\<close>.
\<close>

fun merge_impacts_loop ::
  "(string \<times> stock_impact) list \<Rightarrow> stock_impact list \<Rightarrow> (string \<times> stock_impact) list" where
  "merge_impacts_loop seen [] = seen"
| "merge_impacts_loop seen (impact # impacts) =
     (case map_of seen (imp_symbol impact) of
        None \<Rightarrow> merge_impacts_loop (AList.update (imp_symbol impact) impact seen) impacts
      | Some cur \<Rightarrow>
          if imp_confidence impact > imp_confidence cur
          then merge_impacts_loop (AList.update (imp_symbol impact) impact seen) impacts
          else merge_impacts_loop seen impacts)"

definition merge_impacts :: "stock_impact list \<Rightarrow> stock_impact list" where
  "merge_impacts impacts = map snd (merge_impacts_loop [] impacts)"

text \<open>\<^verbatim>\<open>process\<close>. Nothing inside its \<^verbatim>\<open>try\<close> raises once the state is well typed.\<close>

definition StockImpactAgent_process :: "capabilities \<Rightarrow> agent_state \<Rightarrow> agent_state" where
  "StockImpactAgent_process caps st =
     (if is_duplicate st then st
      else
        (let a = article st;
             impacts = get_direct_impacts (entities st) @ get_sector_impacts (entities st)
                       @ get_regulatory_impacts (entities st)
                       @ analyze_with_llm caps (title a) (content a) (entities st);
             merged = merge_impacts impacts
         in st\<lparr>stock_impacts := merged,
               processing_metadata :=
                 AList.update ''impact_count'' (MInt (length merged)) (processing_metadata st)\<rparr>))"

section \<open>Storage stage (src/database.py, src/agents/storage\_agent.py)\<close>

text \<open>
  A SQLAlchemy session (\<^verbatim>\<open>autoflush=False\<close>): \<^verbatim>\<open>add\<close> queues a row, \<^verbatim>\<open>commit\<close> sends
  the queued rows to the database in one transaction, which the database either applies
  whole or rejects whole, and \<^verbatim>\<open>rollback\<close> drops what is queued. A commit with nothing
  queued does nothing.
\<close>

record session =
  sess_db :: database
  sess_pending :: "db_row list"

definition session_add :: "session \<Rightarrow> db_row \<Rightarrow> session" where
  "session_add s row = s\<lparr>sess_pending := sess_pending s @ [row]\<rparr>"

fun insert_row :: "database \<Rightarrow> db_row \<Rightarrow> database" where
  "insert_row d (NewsArticleDB i t c s p u dup dup_of) =
     d\<lparr>db_news_articles := db_news_articles d @ [NewsArticleDB i t c s p u dup dup_of]\<rparr>"
| "insert_row d (ExtractedEntityDB i t ty c) =
     d\<lparr>db_extracted_entities := db_extracted_entities d @ [ExtractedEntityDB i t ty c]\<rparr>"
| "insert_row d (StockImpactDB i sy c ty r) =
     d\<lparr>db_stock_impacts := db_stock_impacts d @ [StockImpactDB i sy c ty r]\<rparr>"

definition session_commit :: "capabilities \<Rightarrow> session \<Rightarrow> string + session" where
  "session_commit caps s =
     (if sess_pending s = [] then Inr s
      else case flush_error caps (sess_db s) (sess_pending s) of
             Some e \<Rightarrow> Inl e
           | None \<Rightarrow> Inr \<lparr>sess_db = foldl insert_row (sess_db s) (sess_pending s),
                          sess_pending = []\<rparr>)"

definition session_rollback :: "session \<Rightarrow> session" where
  "session_rollback s = s\<lparr>sess_pending := []\<rparr>"

text \<open>
  The context manager \<^verbatim>\<open>get_db_session\<close> around a body: the body gets a fresh session
  and returns the session as it leaves it together with the exception it raised, if
  any. After a body that returns, the manager commits; on an exception of the body or
  of that commit it rolls back and re-raises. The result is the database when the
  session is closed, and the exception.
\<close>

definition get_db_session ::
  "capabilities \<Rightarrow> database \<Rightarrow> (session \<Rightarrow> session \<times> string option) \<Rightarrow>
     database \<times> string option" where
  "get_db_session caps d body =
     (case body \<lparr>sess_db = d, sess_pending = []\<rparr> of
        (s, Some e) \<Rightarrow> (sess_db (session_rollback s), Some e)
      | (s, None) \<Rightarrow>
          (case session_commit caps s of
             Inl e \<Rightarrow> (sess_db (session_rollback s), Some e)
           | Inr s' \<Rightarrow> (sess_db s', None)))"

definition article_row :: "agent_state \<Rightarrow> db_row" where
  "article_row st =
     (let a = article st in
      NewsArticleDB (article_id a) (title a) (content a) (source a) (published_at a) (url a)
        (is_duplicate st) (duplicate_of st))"

definition entity_row :: "agent_state \<Rightarrow> entity \<Rightarrow> db_row" where
  "entity_row st e =
     ExtractedEntityDB (article_id (article st)) (ent_text e) (ent_type e) (ent_confidence e)"

definition impact_row :: "agent_state \<Rightarrow> stock_impact \<Rightarrow> db_row" where
  "impact_row st i =
     StockImpactDB (article_id (article st)) (imp_symbol i) (imp_confidence i) (imp_type i)
       (imp_reasoning i)"

text \<open>The body of the \<^verbatim>\<open>with\<close> block of \<^verbatim>\<open>StorageAgent.process\<close>.\<close>

definition storage_body ::
  "capabilities \<Rightarrow> agent_state \<Rightarrow> session \<Rightarrow> session \<times> string option" where
  "storage_body caps st s =
     (let s1 = session_add s (article_row st);
          s2 = (if \<not> is_duplicate st
                then foldl session_add
                       (foldl session_add s1 (map (entity_row st) (entities st)))
                       (map (impact_row st) (stock_impacts st))
                else s1)
      in case session_commit caps s2 of
           Inl e \<Rightarrow> (s2, Some e)
         | Inr s3 \<Rightarrow> (s3, None))"

text \<open>
  \<^verbatim>\<open>process\<close>: the \<^verbatim>\<open>with\<close> block, then the index, then \<^verbatim>\<open>stored = True\<close>. The handler
  writes the message and \<^verbatim>\<open>stored = False\<close> into the incoming state.
\<close>

definition storage_failed :: "agent_state \<Rightarrow> string \<Rightarrow> agent_state" where
  "storage_failed st e =
     st\<lparr>error := Some e,
        processing_metadata := AList.update ''stored'' (MBool False) (processing_metadata st)\<rparr>"

definition storage_done :: "agent_state \<Rightarrow> agent_state" where
  "storage_done st =
     st\<lparr>processing_metadata := AList.update ''stored'' (MBool True) (processing_metadata st)\<rparr>"

definition StorageAgent_process ::
  "capabilities \<Rightarrow> world \<Rightarrow> agent_state \<Rightarrow> world \<times> agent_state" where
  "StorageAgent_process caps w st =
     (case get_db_session caps (db w) (storage_body caps st) of
        (d, Some e) \<Rightarrow> (w\<lparr>db := d\<rparr>, storage_failed st e)
      | (d, None) \<Rightarrow>
          if \<not> is_duplicate st then
            (case add_article caps (vstore w) (article st) (map ent_text (entities st)) of
               (vs, Some e) \<Rightarrow> (w\<lparr>db := d, vstore := vs\<rparr>, storage_failed st e)
             | (vs, None) \<Rightarrow> (w\<lparr>db := d, vstore := vs\<rparr>, storage_done st))
          else (w\<lparr>db := d\<rparr>, storage_done st))"

section \<open>Workflow (src/workflow.py)\<close>

text \<open>
  The graph is the chain deduplication, entity extraction, impact analysis, storage.
  \<open>pipeline\<close> has the binding of \<^verbatim>\<open>SIMILARITY_THRESHOLD\<close> as a parameter;
  \<open>process_article\<close> is the pipeline of the source, where the name is unbound.
\<close>

definition pipeline ::
  "capabilities \<Rightarrow> real option \<Rightarrow> world \<Rightarrow> news_article \<Rightarrow> world \<times> agent_state" where
  "pipeline caps glob w a =
     StorageAgent_process caps w
       (StockImpactAgent_process caps
          (EntityExtractionAgent_process caps
             (DeduplicationAgent_process caps glob (vstore w) (initial_state a))))"

definition process_article :: "capabilities \<Rightarrow> world \<Rightarrow> news_article \<Rightarrow> world \<times> agent_state" where
  "process_article caps w a = pipeline caps vector_store_SIMILARITY_THRESHOLD w a"

section \<open>Specification vocabulary\<close>

text \<open>The order in which keys are first seen in a list.\<close>

definition first_seen_order :: "'a list \<Rightarrow> 'a list" where
  "first_seen_order ks = rev (remdups (rev ks))"

text \<open>
  What the impact merge keeps for a symbol: \<open>e\<close> is an entry of \<open>xs\<close> that is strictly
  more confident than every earlier entry of its symbol and at least as confident as
  every later one.
\<close>

definition impact_winner :: "stock_impact list \<Rightarrow> stock_impact \<Rightarrow> bool" where
  "impact_winner xs e \<longleftrightarrow>
     (\<exists>pre suf. xs = pre @ e # suf \<and>
        (\<forall>x \<in> set pre. imp_symbol x = imp_symbol e \<longrightarrow> imp_confidence x < imp_confidence e) \<and>
        (\<forall>x \<in> set suf. imp_symbol x = imp_symbol e \<longrightarrow> imp_confidence x \<le> imp_confidence e))"

text \<open>
  The invariant of the impact merge loop started on the empty dict: after the impacts
  \<open>xs\<close>, the keys are the symbols of \<open>xs\<close> in first-seen order and the value under a
  key is the winner of that symbol.
\<close>

definition impacts_inv :: "stock_impact list \<Rightarrow> (string \<times> stock_impact) list \<Rightarrow> bool" where
  "impacts_inv xs seen \<longleftrightarrow>
     map fst seen = first_seen_order (map imp_symbol xs) \<and>
     (\<forall>k e. (k, e) \<in> set seen \<longrightarrow> imp_symbol e = k \<and> impact_winner xs e)"

text \<open>
  What the entity merge makes of the entities \<open>es\<close>: \<open>m\<close> is the first entity of
  \<open>es\<close> with its key, with only the confidence replaced by the maximum over all
  entities of \<open>es\<close> with that key.
\<close>

definition entity_merged :: "entity list \<Rightarrow> entity \<Rightarrow> bool" where
  "entity_merged es m \<longleftrightarrow>
     (\<exists>pre first suf. es = pre @ first # suf \<and>
        (\<forall>x \<in> set pre. entity_key x \<noteq> entity_key first) \<and>
        m = first\<lparr>ent_confidence :=
                    Max (ent_confidence ` {x \<in> set es. entity_key x = entity_key first})\<rparr>)"

text \<open>
  One round of the entity merge loop written on the list \<open>merged\<close> alone, and the
  link between the dict \<open>seen\<close> and the list that the loop maintains.
\<close>

definition merge_entities_pure_step :: "entity list \<Rightarrow> entity \<Rightarrow> entity list" where
  "merge_entities_pure_step merged e =
     (if entity_key e \<in> set (map entity_key merged)
      then map (\<lambda>m. if entity_key m = entity_key e \<and> ent_confidence e > ent_confidence m
                     then m\<lparr>ent_confidence := ent_confidence e\<rparr> else m) merged
      else merged @ [e])"

definition seen_inv :: "((string \<times> string) \<times> nat) list \<Rightarrow> entity list \<Rightarrow> bool" where
  "seen_inv seen merged \<longleftrightarrow>
     distinct (map entity_key merged) \<and>
     (\<forall>k i. map_of seen k = Some i \<longleftrightarrow> i < length merged \<and> entity_key (merged ! i) = k)"

text \<open>\<open>c\<close> is the greatest confidence among the entities of \<open>es\<close> with key \<open>k\<close>.\<close>

definition top_confidence :: "entity list \<Rightarrow> string \<times> string \<Rightarrow> real \<Rightarrow> bool" where
  "top_confidence es k c \<longleftrightarrow>
     (\<exists>x \<in> set es. entity_key x = k \<and> ent_confidence x = c) \<and>
     (\<forall>x \<in> set es. entity_key x = k \<longrightarrow> ent_confidence x \<le> c)"

text \<open>
  The invariant of the entity merge loop, with the maximum written out as
  \<open>top_confidence\<close>.
\<close>

definition entity_merged_top :: "entity list \<Rightarrow> entity \<Rightarrow> bool" where
  "entity_merged_top es m \<longleftrightarrow>
     (\<exists>pre first suf c. es = pre @ first # suf \<and>
        (\<forall>x \<in> set pre. entity_key x \<noteq> entity_key first) \<and>
        top_confidence es (entity_key first) c \<and>
        m = first\<lparr>ent_confidence := c\<rparr>)"

definition entities_inv :: "entity list \<Rightarrow> entity list \<Rightarrow> bool" where
  "entities_inv es r \<longleftrightarrow>
     map entity_key r = first_seen_order (map entity_key es) \<and>
     (\<forall>m \<in> set r. entity_merged_top es m)"

text \<open>
  Resolution of a company name, in the words of the specification: a table name matches a
  company when one of the two, lowercased, is a substring of the other (\<open>sublist\<close>:
  a contiguous part); the derived symbol is the name uppercased, without its spaces,
  cut to ten characters; the direct impact of a COMPANY entity carries the resolved
  symbol at the "direct" confidence 1.0.
\<close>

definition name_matches :: "string \<Rightarrow> string \<Rightarrow> bool" where
  "name_matches name company \<longleftrightarrow>
     sublist (lower name) (lower company) \<or> sublist (lower company) (lower name)"

definition derived_symbol :: "string \<Rightarrow> string" where
  "derived_symbol company = take 10 (filter (\<lambda>c. c \<noteq> CHR '' '') (upper company))"

definition direct_impact_of :: "entity \<Rightarrow> stock_impact" where
  "direct_impact_of e =
     \<lparr>imp_symbol = map_company_to_symbol (ent_text e), imp_confidence = 1,
      imp_type = ''direct'',
      imp_reasoning =
        Some (''Company '' @ [CHR 0x27] @ ent_text e @ [CHR 0x27] @ '' directly mentioned'')\<rparr>"

text \<open>
  The rows that the storage stage queues for a state: the article row, and for a
  state that is not a duplicate one row per entity and one row per stock impact.
\<close>

definition storage_rows :: "agent_state \<Rightarrow> db_row list" where
  "storage_rows st =
     article_row st #
     (if is_duplicate st then []
      else map (entity_row st) (entities st) @ map (impact_row st) (stock_impacts st))"

text \<open>
  What the database holds once the rows of a state are persisted: (a) the article row
  with its deduplication outcome, (b) if the state is not a duplicate, one row per
  entity and one row per stock impact.
\<close>

definition persisted :: "database \<Rightarrow> agent_state \<Rightarrow> database" where
  "persisted d st =
     \<lparr>db_news_articles = db_news_articles d @ [article_row st],
      db_extracted_entities =
        db_extracted_entities d @
        (if is_duplicate st then [] else map (entity_row st) (entities st)),
      db_stock_impacts =
        db_stock_impacts d @
        (if is_duplicate st then [] else map (impact_row st) (stock_impacts st))\<rparr>"

text \<open>The message of the NameError for the unbound threshold name.\<close>

definition NameError_message :: string where
  "NameError_message =
     ''name '' @ [CHR 0x27] @ ''SIMILARITY_THRESHOLD'' @ [CHR 0x27] @ '' is not defined''"

section \<open>Example inputs\<close>

text \<open>An article, an empty world, and capabilities that all answer.\<close>

definition ex_article :: news_article where
  "ex_article =
     \<lparr>article_id = ''N1'', title = ''HDFC Bank reports profit'', content = ''RBI approves'',
      source = ''X'', published_at = ''T'', url = None\<rparr>"

definition ex_world :: world where
  "ex_world =
     \<lparr>db = \<lparr>db_news_articles = [], db_extracted_entities = [], db_stock_impacts = []\<rparr>,
      vstore = \<lparr>news_collection = [], entity_collection = []\<rparr>\<rparr>"

definition ex_caps :: capabilities where
  "ex_caps =
     \<lparr>similarity_search_with_score =
        (\<lambda>coll q k. Inr (map (\<lambda>(i, d). (d, if page_content d = q then 0 else 0.7)) (take k coll))),
      embedding_error = (\<lambda>texts. None),
      nlp_ents = (\<lambda>text. Inr [(''HDFC Bank'', ''ORG'')]),
      extraction_chain =
        (\<lambda>t c. Inr (JObj [(''companies'', JArr [JStr ''HDFC Bank'']),
                          (''regulators'', JArr [JStr ''RBI''])])),
      entity_validation_error = (\<lambda>v. ''1 validation error for Entity''),
      impact_chain = (\<lambda>t c cs ss rs es. Inr []),
      flush_error = (\<lambda>d rows. None)\<rparr>"

text \<open>A state after extraction and impact analysis, used to exercise the storage stage.\<close>

definition ex_state :: agent_state where
  "ex_state =
     (initial_state ex_article)
       \<lparr>entities := [mk_entity ''HDFC Bank'' ''COMPANY'' 0.9],
        stock_impacts := [\<lparr>imp_symbol = ''HDFCBANK'', imp_confidence = 1, imp_type = ''direct'',
                           imp_reasoning = None\<rparr>]\<rparr>"

text \<open>
  A world whose index already holds the example article, and the same text submitted
  again under a new id.
\<close>

definition ex_indexed_world :: world where
  "ex_indexed_world =
     ex_world\<lparr>vstore :=
       \<lparr>news_collection =
          [(''N1'', \<lparr>page_content = title ex_article @ [CHR 0x0A, CHR 0x0A] @ content ex_article,
                     metadata = [(''article_id'', ''N1'')]\<rparr>)],
        entity_collection = []\<rparr>\<rparr>"

definition ex_article2 :: news_article where
  "ex_article2 = ex_article\<lparr>article_id := ''N2''\<rparr>"

text \<open>
  Capabilities whose similarity index raises, whose extraction model raises, and whose
  reasoning model raises.
\<close>

definition ex_caps_index_down :: capabilities where
  "ex_caps_index_down =
     ex_caps\<lparr>similarity_search_with_score := (\<lambda>coll q k. Inl ''index down'')\<rparr>"

definition ex_caps_extraction_down :: capabilities where
  "ex_caps_extraction_down = ex_caps\<lparr>extraction_chain := (\<lambda>t c. Inl ''llm down'')\<rparr>"

definition ex_caps_impact_down :: capabilities where
  "ex_caps_impact_down = ex_caps\<lparr>impact_chain := (\<lambda>t c cs ss rs es. Inl ''llm down'')\<rparr>"



section \<open>Impact merge: proofs\<close>

lemma merge_impacts_loop_snoc:
  "merge_impacts_loop seen (xs @ [x]) = merge_impacts_loop (merge_impacts_loop seen xs) [x]"
  by (induction xs arbitrary: seen) (auto split: option.splits)

lemma update_absent_appends:
  "k \<notin> fst ` set al \<Longrightarrow> AList.update k v al = al @ [(k, v)]"
  by (induction al) auto

lemma first_seen_order_snoc:
  "first_seen_order (ks @ [k]) =
     (if k \<in> set ks then first_seen_order ks else first_seen_order ks @ [k])"
  by (simp add: first_seen_order_def)

lemma set_update_present:
  "distinct (map fst al) \<Longrightarrow> map_of al k = Some v' \<Longrightarrow>
     set (AList.update k v al) = insert (k, v) (set al - {(k, v')})"
proof (induction al)
  case Nil
  then show ?case by simp
next
  case (Cons p ps)
  show ?case
  proof (cases "fst p = k")
    case True
    with Cons.prems have "p = (k, v')" by (cases p) auto
    moreover from Cons.prems True have "(k, v') \<notin> set ps"
      by (auto simp: image_iff)
    ultimately show ?thesis by auto
  next
    case False
    with Cons have "set (AList.update k v ps) = insert (k, v) (set ps - {(k, v')})"
      by auto
    with False show ?thesis by (cases p) auto
  qed
qed

lemma impact_winner_max:
  "impact_winner xs e \<Longrightarrow> x \<in> set xs \<Longrightarrow> imp_symbol x = imp_symbol e \<Longrightarrow>
     imp_confidence x \<le> imp_confidence e"
  unfolding impact_winner_def by force

lemma impact_winner_snoc_other:
  assumes "impact_winner xs e"
    and "imp_symbol x = imp_symbol e \<longrightarrow> imp_confidence x \<le> imp_confidence e"
  shows "impact_winner (xs @ [x]) e"
proof -
  from assms(1) obtain pre suf where ps: "xs = pre @ e # suf"
    and a: "\<forall>y \<in> set pre. imp_symbol y = imp_symbol e \<longrightarrow> imp_confidence y < imp_confidence e"
    and b: "\<forall>y \<in> set suf. imp_symbol y = imp_symbol e \<longrightarrow> imp_confidence y \<le> imp_confidence e"
    unfolding impact_winner_def by blast
  have "xs @ [x] = pre @ e # (suf @ [x])" using ps by simp
  moreover have "\<forall>y \<in> set (suf @ [x]). imp_symbol y = imp_symbol e \<longrightarrow>
      imp_confidence y \<le> imp_confidence e"
    using b assms(2) by auto
  ultimately show ?thesis unfolding impact_winner_def using a by blast
qed

lemma impact_winner_snoc_new:
  assumes "\<forall>y \<in> set xs. imp_symbol y = imp_symbol x \<longrightarrow> imp_confidence y < imp_confidence x"
  shows "impact_winner (xs @ [x]) x"
  unfolding impact_winner_def
  using assms by (intro exI[of _ xs] exI[of _ "[]"]) simp

lemma distinct_first_seen_order: "distinct (first_seen_order ks)"
  by (simp add: first_seen_order_def)

lemma set_first_seen_order: "set (first_seen_order ks) = set ks"
  by (simp add: first_seen_order_def)

lemma impacts_inv_step:
  assumes inv: "impacts_inv xs seen"
  shows "impacts_inv (xs @ [x]) (merge_impacts_loop seen [x])"
proof -
  let ?k = "imp_symbol x"
  from inv have keys: "map fst seen = first_seen_order (map imp_symbol xs)"
    and vals: "\<And>k e. (k, e) \<in> set seen \<Longrightarrow> imp_symbol e = k \<and> impact_winner xs e"
    unfolding impacts_inv_def by blast+
  have dist: "distinct (map fst seen)"
    unfolding keys by (rule distinct_first_seen_order)
  have "set (map fst seen) = set (map imp_symbol xs)"
    unfolding keys by (rule set_first_seen_order)
  then have dom: "fst ` set seen = imp_symbol ` set xs" by simp
  have unique: "\<And>k e e'. (k, e) \<in> set seen \<Longrightarrow> (k, e') \<in> set seen \<Longrightarrow> e = e'"
    using dist by (meson eq_key_imp_eq_value)
  show ?thesis
  proof (cases "map_of seen ?k")
    case None
    then have absent: "?k \<notin> fst ` set seen"
      by (simp add: map_of_eq_None_iff)
    then have new: "merge_impacts_loop seen [x] = seen @ [(?k, x)]"
      using None by (simp add: update_absent_appends)
    have notin: "?k \<notin> imp_symbol ` set xs"
      using absent dom by simp
    have k1: "map fst (seen @ [(?k, x)]) = first_seen_order (map imp_symbol (xs @ [x]))"
      using keys notin by (simp add: first_seen_order_snoc)
    have w_new: "impact_winner (xs @ [x]) x"
    proof (rule impact_winner_snoc_new, intro ballI impI)
      fix y assume "y \<in> set xs" "imp_symbol y = imp_symbol x"
      then have "imp_symbol x \<in> imp_symbol ` set xs" by (metis imageI)
      with notin have False by simp
      then show "imp_confidence y < imp_confidence x" ..
    qed
    have "\<forall>k e. (k, e) \<in> set (seen @ [(?k, x)]) \<longrightarrow>
        imp_symbol e = k \<and> impact_winner (xs @ [x]) e"
    proof (intro allI impI)
      fix k e assume "(k, e) \<in> set (seen @ [(?k, x)])"
      then consider (old) "(k, e) \<in> set seen" | (new) "k = ?k" "e = x" by auto
      then show "imp_symbol e = k \<and> impact_winner (xs @ [x]) e"
      proof cases
        case old
        then have ke: "imp_symbol e = k" and w: "impact_winner xs e" using vals by blast+
        from old have "k \<in> fst ` set seen" by (metis fst_conv imageI)
        with absent ke have "imp_symbol x \<noteq> imp_symbol e" by metis
        then have "imp_symbol x = imp_symbol e \<longrightarrow> imp_confidence x \<le> imp_confidence e"
          by simp
        with w have "impact_winner (xs @ [x]) e" by (rule impact_winner_snoc_other)
        with ke show ?thesis by simp
      next
        case new
        with w_new show ?thesis by simp
      qed
    qed
    with k1 show ?thesis unfolding impacts_inv_def new by (rule conjI)
  next
    case (Some cur)
    then have mem: "(?k, cur) \<in> set seen" by (rule map_of_SomeD)
    then have cur_k: "imp_symbol cur = ?k" and cur_w: "impact_winner xs cur"
      using vals by blast+
    from mem have "?k \<in> fst ` set seen" by (metis fst_conv imageI)
    then have present: "?k \<in> set (map imp_symbol xs)"
      using dom by simp
    have k_same: "map fst seen = first_seen_order (map imp_symbol (xs @ [x]))"
      using keys present by (simp add: first_seen_order_snoc)
    show ?thesis
    proof (cases "imp_confidence x > imp_confidence cur")
      case True
      then have upd: "merge_impacts_loop seen [x] = AList.update ?k x seen"
        using Some by simp
      have k2: "map fst (AList.update ?k x seen) = map fst seen"
        using \<open>?k \<in> fst ` set seen\<close> by (simp add: update_keys)
      have s2: "set (AList.update ?k x seen) = insert (?k, x) (set seen - {(?k, cur)})"
        using dist Some by (rule set_update_present)
      have w_new: "impact_winner (xs @ [x]) x"
      proof (rule impact_winner_snoc_new, intro ballI impI)
        fix y assume "y \<in> set xs" "imp_symbol y = imp_symbol x"
        then have "imp_confidence y \<le> imp_confidence cur"
          using impact_winner_max[OF cur_w] cur_k by simp
        with True show "imp_confidence y < imp_confidence x" by simp
      qed
      have "\<forall>k e. (k, e) \<in> set (AList.update ?k x seen) \<longrightarrow>
          imp_symbol e = k \<and> impact_winner (xs @ [x]) e"
      proof (intro allI impI)
        fix k e assume "(k, e) \<in> set (AList.update ?k x seen)"
        then consider (old) "(k, e) \<in> set seen" "(k, e) \<noteq> (?k, cur)" | (new) "k = ?k" "e = x"
          unfolding s2 by auto
        then show "imp_symbol e = k \<and> impact_winner (xs @ [x]) e"
        proof cases
          case old
          then have ke: "imp_symbol e = k" and w: "impact_winner xs e" using vals by blast+
          have "k \<noteq> ?k"
          proof
            assume "k = ?k"
            with old(1) mem have "e = cur" using unique by blast
            with old(2) \<open>k = ?k\<close> show False by simp
          qed
          with ke have "imp_symbol x = imp_symbol e \<longrightarrow> imp_confidence x \<le> imp_confidence e"
            by simp
          with w have "impact_winner (xs @ [x]) e" by (rule impact_winner_snoc_other)
          with ke show ?thesis by simp
        next
          case new
          with w_new show ?thesis by simp
        qed
      qed
      with k_same show ?thesis unfolding impacts_inv_def upd k2 by (rule conjI)
    next
      case False
      then have same: "merge_impacts_loop seen [x] = seen" using Some by simp
      have "\<forall>k e. (k, e) \<in> set seen \<longrightarrow> imp_symbol e = k \<and> impact_winner (xs @ [x]) e"
      proof (intro allI impI)
        fix k e assume m: "(k, e) \<in> set seen"
        then have ke: "imp_symbol e = k" and w: "impact_winner xs e" using vals by blast+
        have "imp_symbol x = imp_symbol e \<longrightarrow> imp_confidence x \<le> imp_confidence e"
        proof
          assume eq: "imp_symbol x = imp_symbol e"
          with ke m have "(?k, e) \<in> set seen" by simp
          with mem have "e = cur" using unique by blast
          with False show "imp_confidence x \<le> imp_confidence e" by simp
        qed
        with w have "impact_winner (xs @ [x]) e" by (rule impact_winner_snoc_other)
        with ke show "imp_symbol e = k \<and> impact_winner (xs @ [x]) e" by simp
      qed
      with k_same show ?thesis unfolding impacts_inv_def same by (rule conjI)
    qed
  qed
qed

lemma impacts_inv_loop: "impacts_inv xs (merge_impacts_loop [] xs)"
proof (induction xs rule: rev_induct)
  case Nil
  show ?case by (simp add: impacts_inv_def first_seen_order_def)
next
  case (snoc x xs)
  then show ?case
    using impacts_inv_step[of xs "merge_impacts_loop [] xs" x]
    by (simp add: merge_impacts_loop_snoc)
qed

text \<open>
  C4. The impact merge returns exactly one entry per symbol, in the order in which the
  symbols are first seen. The entry returned for a symbol is an entry of the input,
  whole (all four fields), namely the one that is strictly more confident than every
  earlier entry of the symbol and at least as confident as every later one: a later entry
  replaces an earlier one exactly when its confidence is strictly greater, and among
  equally confident entries the first seen stays.
\<close>

theorem merge_impacts_one_per_symbol_strict_winner:
  "distinct (map imp_symbol (merge_impacts impacts)) \<and>
   map imp_symbol (merge_impacts impacts) = first_seen_order (map imp_symbol impacts) \<and>
   set (map imp_symbol (merge_impacts impacts)) = set (map imp_symbol impacts) \<and>
   (\<forall>e \<in> set (merge_impacts impacts). impact_winner impacts e)"
proof -
  let ?seen = "merge_impacts_loop [] impacts"
  have inv: "impacts_inv impacts ?seen" by (rule impacts_inv_loop)
  then have keys: "map fst ?seen = first_seen_order (map imp_symbol impacts)"
    and vals: "\<And>k e. (k, e) \<in> set ?seen \<Longrightarrow> imp_symbol e = k \<and> impact_winner impacts e"
    unfolding impacts_inv_def by blast+
  have "map imp_symbol (merge_impacts impacts) = map fst ?seen"
    unfolding merge_impacts_def using vals by (auto simp: comp_def)
  then have order: "map imp_symbol (merge_impacts impacts) = first_seen_order (map imp_symbol impacts)"
    using keys by simp
  have win: "\<forall>e \<in> set (merge_impacts impacts). impact_winner impacts e"
    unfolding merge_impacts_def using vals by auto
  show ?thesis
    using order win distinct_first_seen_order[of "map imp_symbol impacts"]
      set_first_seen_order[of "map imp_symbol impacts"]
    by simp
qed

theorem merge_impacts_first_strict_winner_witness:
  "merge_impacts
     [\<lparr>imp_symbol = ''TCS'', imp_confidence = 0.9, imp_type = ''direct'', imp_reasoning = None\<rparr>,
      \<lparr>imp_symbol = ''INFY'', imp_confidence = 0.8, imp_type = ''sector'', imp_reasoning = None\<rparr>,
      \<lparr>imp_symbol = ''TCS'', imp_confidence = 0.95, imp_type = ''sector'', imp_reasoning = None\<rparr>,
      \<lparr>imp_symbol = ''TCS'', imp_confidence = 0.95, imp_type = ''regulatory'', imp_reasoning = None\<rparr>]
   = [\<lparr>imp_symbol = ''TCS'', imp_confidence = 0.95, imp_type = ''sector'', imp_reasoning = None\<rparr>,
      \<lparr>imp_symbol = ''INFY'', imp_confidence = 0.8, imp_type = ''sector'', imp_reasoning = None\<rparr>] \<and>
   impact_winner
     [\<lparr>imp_symbol = ''TCS'', imp_confidence = 0.9, imp_type = ''direct'', imp_reasoning = None\<rparr>,
      \<lparr>imp_symbol = ''INFY'', imp_confidence = 0.8, imp_type = ''sector'', imp_reasoning = None\<rparr>,
      \<lparr>imp_symbol = ''TCS'', imp_confidence = 0.95, imp_type = ''sector'', imp_reasoning = None\<rparr>,
      \<lparr>imp_symbol = ''TCS'', imp_confidence = 0.95, imp_type = ''regulatory'', imp_reasoning = None\<rparr>]
     \<lparr>imp_symbol = ''TCS'', imp_confidence = 0.95, imp_type = ''sector'', imp_reasoning = None\<rparr>"
  using merge_impacts_one_per_symbol_strict_winner
    [of "[\<lparr>imp_symbol = ''TCS'', imp_confidence = 0.9, imp_type = ''direct'', imp_reasoning = None\<rparr>,
      \<lparr>imp_symbol = ''INFY'', imp_confidence = 0.8, imp_type = ''sector'', imp_reasoning = None\<rparr>,
      \<lparr>imp_symbol = ''TCS'', imp_confidence = 0.95, imp_type = ''sector'', imp_reasoning = None\<rparr>,
      \<lparr>imp_symbol = ''TCS'', imp_confidence = 0.95, imp_type = ''regulatory'', imp_reasoning = None\<rparr>]"]
  by (simp add: merge_impacts_def)

section \<open>Entity merge: proofs\<close>

lemma entity_key_confidence_update [simp]:
  "entity_key (m\<lparr>ent_confidence := c\<rparr>) = entity_key m"
  by (simp add: entity_key_def)

lemma key_nth_unique:
  assumes "distinct (map entity_key merged)" "i < length merged" "j < length merged"
    "entity_key (merged ! i) = entity_key (merged ! j)"
  shows "i = j"
proof -
  have "(map entity_key merged ! i = map entity_key merged ! j) = (i = j)"
    using assms(1,2,3) by (intro nth_eq_iff_index_eq) simp_all
  then show ?thesis using assms(2,3,4) by simp
qed

lemma merge_entities_step_refines:
  assumes inv: "seen_inv seen merged"
  shows "\<exists>seen'. merge_entities_step (seen, merged) e = (seen', merge_entities_pure_step merged e) \<and>
           seen_inv seen' (merge_entities_pure_step merged e)"
proof -
  let ?k = "entity_key e"
  from inv have dist: "distinct (map entity_key merged)"
    and look: "\<And>k i. map_of seen k = Some i \<longleftrightarrow> i < length merged \<and> entity_key (merged ! i) = k"
    unfolding seen_inv_def by blast+
  show ?thesis
  proof (cases "map_of seen ?k")
    case None
    have notin: "?k \<notin> set (map entity_key merged)"
    proof
      assume "?k \<in> set (map entity_key merged)"
      then obtain i where "i < length merged" "entity_key (merged ! i) = ?k"
        by (auto simp: in_set_conv_nth)
      then have "map_of seen ?k = Some i" using look by blast
      with None show False by simp
    qed
    then have pure: "merge_entities_pure_step merged e = merged @ [e]"
      by (simp add: merge_entities_pure_step_def)
    have step: "merge_entities_step (seen, merged) e =
        (AList.update ?k (length merged) seen, merged @ [e])"
      using None by (simp add: merge_entities_step_def)
    have "seen_inv (AList.update ?k (length merged) seen) (merged @ [e])"
      unfolding seen_inv_def
    proof (intro conjI allI)
      show "distinct (map entity_key (merged @ [e]))" using dist notin by simp
    next
      fix k i
      show "map_of (AList.update ?k (length merged) seen) k = Some i \<longleftrightarrow>
          i < length (merged @ [e]) \<and> entity_key ((merged @ [e]) ! i) = k"
      proof (cases "k = ?k")
        case True
        have "\<And>j. j < length merged \<Longrightarrow> entity_key (merged ! j) \<noteq> ?k"
          using notin by (metis length_map nth_map nth_mem)
        then show ?thesis using True
          by (auto simp: update_conv' nth_append less_Suc_eq)
      next
        case False
        then show ?thesis using look[of k i]
          by (auto simp: update_conv' nth_append less_Suc_eq)
      qed
    qed
    with step pure show ?thesis by simp
  next
    case (Some i)
    then have i_lt: "i < length merged" and i_key: "entity_key (merged ! i) = ?k"
      using look by blast+
    then have isin: "?k \<in> set (map entity_key merged)"
      by (metis length_map nth_map nth_mem)
    let ?f = "\<lambda>m. if entity_key m = ?k \<and> ent_confidence e > ent_confidence m
                    then m\<lparr>ent_confidence := ent_confidence e\<rparr> else m"
    have pure: "merge_entities_pure_step merged e = map ?f merged"
      using isin by (simp add: merge_entities_pure_step_def)
    have other: "\<And>j. j < length merged \<Longrightarrow> j \<noteq> i \<Longrightarrow> entity_key (merged ! j) \<noteq> ?k"
      using key_nth_unique[OF dist] i_lt i_key by metis
    have keys_same: "map entity_key (map ?f merged) = map entity_key merged"
      by (simp add: comp_def)
    have inv': "seen_inv seen (map ?f merged)"
      unfolding seen_inv_def
    proof (intro conjI allI)
      show "distinct (map entity_key (map ?f merged))" unfolding keys_same by (rule dist)
    next
      fix k j
      have "j < length merged \<Longrightarrow> entity_key (map ?f merged ! j) = entity_key (merged ! j)"
        by simp
      then show "map_of seen k = Some j \<longleftrightarrow>
          j < length (map ?f merged) \<and> entity_key (map ?f merged ! j) = k"
        using look[of k j] by auto
    qed
    show ?thesis
    proof (cases "ent_confidence e > ent_confidence (merged ! i)")
      case True
      have "merged[i := (merged ! i)\<lparr>ent_confidence := ent_confidence e\<rparr>] = map ?f merged"
      proof (rule nth_equalityI)
        show "length (merged[i := (merged ! i)\<lparr>ent_confidence := ent_confidence e\<rparr>]) =
            length (map ?f merged)" by simp
      next
        fix j assume "j < length (merged[i := (merged ! i)\<lparr>ent_confidence := ent_confidence e\<rparr>])"
        then have j_lt: "j < length merged" by simp
        show "merged[i := (merged ! i)\<lparr>ent_confidence := ent_confidence e\<rparr>] ! j = map ?f merged ! j"
        proof (cases "j = i")
          case True
          with i_lt i_key \<open>ent_confidence e > ent_confidence (merged ! i)\<close> show ?thesis by simp
        next
          case False
          with j_lt other[of j] show ?thesis by simp
        qed
      qed
      then have "merge_entities_step (seen, merged) e = (seen, map ?f merged)"
        using Some True by (simp add: merge_entities_step_def)
      with pure inv' show ?thesis by simp
    next
      case False
      have "map ?f merged = merged"
      proof (rule nth_equalityI)
        show "length (map ?f merged) = length merged" by simp
      next
        fix j assume "j < length (map ?f merged)"
        then have j_lt: "j < length merged" by simp
        show "map ?f merged ! j = merged ! j"
        proof (cases "j = i")
          case True
          with i_lt False show ?thesis by simp
        next
          case False
          with j_lt other[of j] show ?thesis by simp
        qed
      qed
      moreover have "merge_entities_step (seen, merged) e = (seen, merged)"
        using Some False by (simp add: merge_entities_step_def)
      ultimately show ?thesis using pure inv' by simp
    qed
  qed
qed

lemma merge_entities_foldl_refines:
  "seen_inv seen merged \<Longrightarrow>
     snd (foldl merge_entities_step (seen, merged) es) = foldl merge_entities_pure_step merged es"
proof (induction es arbitrary: seen merged)
  case Nil
  show ?case by simp
next
  case (Cons e es)
  from merge_entities_step_refines[OF Cons.prems, of e]
  obtain seen' where st: "merge_entities_step (seen, merged) e = (seen', merge_entities_pure_step merged e)"
    and inv': "seen_inv seen' (merge_entities_pure_step merged e)" by blast
  show ?case using Cons.IH[OF inv'] st by simp
qed

lemma merge_entities_pure: "merge_entities es = foldl merge_entities_pure_step [] es"
  unfolding merge_entities_def
  by (rule merge_entities_foldl_refines) (simp add: seen_inv_def)

lemma top_confidence_snoc_other:
  "top_confidence es k c \<Longrightarrow> entity_key e \<noteq> k \<Longrightarrow> top_confidence (es @ [e]) k c"
  unfolding top_confidence_def by auto

lemma top_confidence_snoc_le:
  "top_confidence es k c \<Longrightarrow> ent_confidence e \<le> c \<Longrightarrow> top_confidence (es @ [e]) k c"
  unfolding top_confidence_def by auto

lemma top_confidence_snoc_gt:
  "top_confidence es k c \<Longrightarrow> entity_key e = k \<Longrightarrow> c < ent_confidence e \<Longrightarrow>
     top_confidence (es @ [e]) k (ent_confidence e)"
  unfolding top_confidence_def by force

lemma top_confidence_snoc_new:
  assumes "entity_key e \<notin> entity_key ` set es"
  shows "top_confidence (es @ [e]) (entity_key e) (ent_confidence e)"
proof -
  have "\<And>x. x \<in> set es \<Longrightarrow> entity_key x \<noteq> entity_key e"
    using assms by (metis imageI)
  then show ?thesis unfolding top_confidence_def by auto
qed

lemma entity_merged_top_snoc:
  assumes "entity_merged_top es m"
  shows "entity_merged_top (es @ [e])
           (if entity_key m = entity_key e \<and> ent_confidence e > ent_confidence m
            then m\<lparr>ent_confidence := ent_confidence e\<rparr> else m)"
proof -
  from assms obtain pre first suf c where es: "es = pre @ first # suf"
    and fst: "\<forall>x \<in> set pre. entity_key x \<noteq> entity_key first"
    and top: "top_confidence es (entity_key first) c"
    and m: "m = first\<lparr>ent_confidence := c\<rparr>"
    unfolding entity_merged_top_def by blast
  have es': "es @ [e] = pre @ first # (suf @ [e])" using es by simp
  have km: "entity_key m = entity_key first" and cm: "ent_confidence m = c"
    using m by simp_all
  show ?thesis
  proof (cases "entity_key m = entity_key e \<and> ent_confidence e > ent_confidence m")
    case True
    then have "entity_key e = entity_key first" and "c < ent_confidence e"
      using km cm by simp_all
    with top have "top_confidence (es @ [e]) (entity_key first) (ent_confidence e)"
      by (rule top_confidence_snoc_gt)
    moreover have "m\<lparr>ent_confidence := ent_confidence e\<rparr> = first\<lparr>ent_confidence := ent_confidence e\<rparr>"
      using m by simp
    ultimately have "entity_merged_top (es @ [e]) (m\<lparr>ent_confidence := ent_confidence e\<rparr>)"
      unfolding entity_merged_top_def using es' fst by blast
    then show ?thesis using True by (simp only: if_True simp_thms)
  next
    case False
    have "top_confidence (es @ [e]) (entity_key first) c"
    proof (cases "entity_key e = entity_key first")
      case True
      with False km cm have "ent_confidence e \<le> c" by simp
      with top show ?thesis by (rule top_confidence_snoc_le)
    next
      case False
      with top show ?thesis by (rule top_confidence_snoc_other)
    qed
    then have "entity_merged_top (es @ [e]) m"
      unfolding entity_merged_top_def using es' fst m by blast
    then show ?thesis using False by (simp only: if_False)
  qed
qed

lemma entity_merged_top_new:
  assumes "entity_key e \<notin> entity_key ` set es"
  shows "entity_merged_top (es @ [e]) e"
proof -
  have "top_confidence (es @ [e]) (entity_key e) (ent_confidence e)"
    using assms by (rule top_confidence_snoc_new)
  moreover have "\<forall>x \<in> set es. entity_key x \<noteq> entity_key e"
    using assms by (metis imageI)
  moreover have "e = e\<lparr>ent_confidence := ent_confidence e\<rparr>" by simp
  moreover have "es @ [e] = es @ e # []" by simp
  ultimately show ?thesis
    unfolding entity_merged_top_def by blast
qed

lemma entities_inv_step:
  assumes "entities_inv es r"
  shows "entities_inv (es @ [e]) (merge_entities_pure_step r e)"
proof -
  from assms have keys: "map entity_key r = first_seen_order (map entity_key es)"
    and tops: "\<And>m. m \<in> set r \<Longrightarrow> entity_merged_top es m"
    unfolding entities_inv_def by blast+
  have dom: "set (map entity_key r) = set (map entity_key es)"
    unfolding keys by (rule set_first_seen_order)
  let ?f = "\<lambda>m. if entity_key m = entity_key e \<and> ent_confidence e > ent_confidence m
                  then m\<lparr>ent_confidence := ent_confidence e\<rparr> else m"
  show ?thesis
  proof (cases "entity_key e \<in> set (map entity_key r)")
    case True
    then have pure: "merge_entities_pure_step r e = map ?f r"
      by (simp add: merge_entities_pure_step_def)
    have "map entity_key (map ?f r) = map entity_key r" by (simp add: comp_def)
    also have "\<dots> = first_seen_order (map entity_key (es @ [e]))"
      using keys True dom by (simp add: first_seen_order_snoc)
    finally have k: "map entity_key (map ?f r) = first_seen_order (map entity_key (es @ [e]))" .
    have "\<forall>m \<in> set (map ?f r). entity_merged_top (es @ [e]) m"
    proof
      fix m' assume "m' \<in> set (map ?f r)"
      then obtain m where "m \<in> set r" "m' = ?f m" by auto
      then show "entity_merged_top (es @ [e]) m'"
        using entity_merged_top_snoc[OF tops, of m e] by simp
    qed
    with k show ?thesis unfolding entities_inv_def pure by (rule conjI)
  next
    case False
    then have pure: "merge_entities_pure_step r e = r @ [e]"
      by (simp add: merge_entities_pure_step_def)
    from False dom have notin: "entity_key e \<notin> entity_key ` set es" by simp
    have k: "map entity_key (r @ [e]) = first_seen_order (map entity_key (es @ [e]))"
      using keys notin by (simp add: first_seen_order_snoc)
    have "\<forall>m \<in> set (r @ [e]). entity_merged_top (es @ [e]) m"
    proof
      fix m assume "m \<in> set (r @ [e])"
      then consider (old) "m \<in> set r" | (new) "m = e" by auto
      then show "entity_merged_top (es @ [e]) m"
      proof cases
        case old
        then have "entity_key m \<in> set (map entity_key r)" by simp
        with False have "entity_key m \<noteq> entity_key e" by metis
        then show ?thesis
          using entity_merged_top_snoc[OF tops[OF old], of e] by simp
      next
        case new
        with notin show ?thesis by (simp add: entity_merged_top_new)
      qed
    qed
    with k show ?thesis unfolding entities_inv_def pure by (rule conjI)
  qed
qed

lemma entities_inv_foldl: "entities_inv es (foldl merge_entities_pure_step [] es)"
proof (induction es rule: rev_induct)
  case Nil
  show ?case by (simp add: entities_inv_def first_seen_order_def)
next
  case (snoc e es)
  then show ?case using entities_inv_step[of es _ e] by simp
qed

lemma top_confidence_Max:
  assumes "top_confidence es k c"
  shows "Max (ent_confidence ` {x \<in> set es. entity_key x = k}) = c"
proof (rule Max_eqI)
  show "finite (ent_confidence ` {x \<in> set es. entity_key x = k})" by simp
next
  fix y assume "y \<in> ent_confidence ` {x \<in> set es. entity_key x = k}"
  then show "y \<le> c" using assms unfolding top_confidence_def by auto
next
  show "c \<in> ent_confidence ` {x \<in> set es. entity_key x = k}"
    using assms unfolding top_confidence_def by force
qed

lemma entity_merged_top_imp:
  assumes "entity_merged_top es m"
  shows "entity_merged es m"
proof -
  from assms obtain pre first suf c where es: "es = pre @ first # suf"
    and fst: "\<forall>x \<in> set pre. entity_key x \<noteq> entity_key first"
    and top: "top_confidence es (entity_key first) c"
    and m: "m = first\<lparr>ent_confidence := c\<rparr>"
    unfolding entity_merged_top_def by blast
  from top have "Max (ent_confidence ` {x \<in> set es. entity_key x = entity_key first}) = c"
    by (rule top_confidence_Max)
  with m have "m = first\<lparr>ent_confidence :=
      Max (ent_confidence ` {x \<in> set es. entity_key x = entity_key first})\<rparr>" by simp
  with es fst show ?thesis unfolding entity_merged_def by blast
qed

text \<open>
  C3. The entity merge returns exactly one entry per key (lowercased text, type), in the
  order in which the keys are first seen. The entry of a key is the first-seen entity of
  that key, in its place, with the confidence replaced by the maximum of the confidences
  of all entities of the input with that key; text and type stay those of the first-seen
  entity.
\<close>

theorem merge_entities_one_per_key_max_confidence:
  "distinct (map entity_key (merge_entities es)) \<and>
   map entity_key (merge_entities es) = first_seen_order (map entity_key es) \<and>
   set (map entity_key (merge_entities es)) = set (map entity_key es) \<and>
   (\<forall>m \<in> set (merge_entities es). entity_merged es m)"
proof -
  have inv: "entities_inv es (merge_entities es)"
    unfolding merge_entities_pure by (rule entities_inv_foldl)
  then have keys: "map entity_key (merge_entities es) = first_seen_order (map entity_key es)"
    and tops: "\<forall>m \<in> set (merge_entities es). entity_merged_top es m"
    unfolding entities_inv_def by blast+
  from tops have "\<forall>m \<in> set (merge_entities es). entity_merged es m"
    using entity_merged_top_imp by blast
  moreover have "distinct (map entity_key (merge_entities es))"
    unfolding keys by (rule distinct_first_seen_order)
  moreover have "set (map entity_key (merge_entities es)) = set (map entity_key es)"
    unfolding keys by (rule set_first_seen_order)
  ultimately show ?thesis using keys by blast
qed

theorem merge_entities_max_confidence_witness:
  "merge_entities [mk_entity ''Bank'' ''SECTOR'' 0.7, mk_entity ''RBI'' ''REGULATOR'' 0.9,
                   mk_entity ''BANK'' ''SECTOR'' 0.9, mk_entity ''bank'' ''SECTOR'' 0.8]
     = [mk_entity ''Bank'' ''SECTOR'' 0.9, mk_entity ''RBI'' ''REGULATOR'' 0.9] \<and>
   entity_merged [mk_entity ''Bank'' ''SECTOR'' 0.7, mk_entity ''RBI'' ''REGULATOR'' 0.9,
                  mk_entity ''BANK'' ''SECTOR'' 0.9, mk_entity ''bank'' ''SECTOR'' 0.8]
     (mk_entity ''Bank'' ''SECTOR'' 0.9)"
proof -
  have ev: "merge_entities [mk_entity ''Bank'' ''SECTOR'' 0.7, mk_entity ''RBI'' ''REGULATOR'' 0.9,
                   mk_entity ''BANK'' ''SECTOR'' 0.9, mk_entity ''bank'' ''SECTOR'' 0.8]
     = [mk_entity ''Bank'' ''SECTOR'' 0.9, mk_entity ''RBI'' ''REGULATOR'' 0.9]"
    by code_simp
  show ?thesis
    using merge_entities_one_per_key_max_confidence
      [of "[mk_entity ''Bank'' ''SECTOR'' 0.7, mk_entity ''RBI'' ''REGULATOR'' 0.9,
            mk_entity ''BANK'' ''SECTOR'' 0.9, mk_entity ''bank'' ''SECTOR'' 0.8]"]
    unfolding ev by simp
qed

section \<open>Direct impacts: proofs\<close>

lemma str_in_sublist: "str_in sub s \<longleftrightarrow> sublist sub s"
  by (induction s) (simp_all add: sublist_Cons_right)

lemma map_company_loop_first_match:
  assumes "table = pre @ (name, symbol) # suf"
    and "name_matches name company"
    and "\<forall>(n, s) \<in> set pre. \<not> name_matches n company"
  shows "map_company_loop table company = symbol"
  using assms
proof (induction pre arbitrary: table)
  case Nil
  then show ?case by (simp add: name_matches_def str_in_sublist)
next
  case (Cons p pre)
  obtain n s where p: "p = (n, s)" by (cases p)
  with Cons.prems have "\<not> name_matches n company" by simp
  then have "map_company_loop table company = map_company_loop (pre @ (name, symbol) # suf) company"
    using Cons.prems(1) p by (simp add: name_matches_def str_in_sublist)
  also have "\<dots> = symbol"
    using Cons.prems by (intro Cons.IH) simp_all
  finally show ?case .
qed

lemma map_company_loop_no_match:
  "\<forall>(n, s) \<in> set table. \<not> name_matches n company \<Longrightarrow>
     map_company_loop table company = derived_symbol company"
  by (induction table) (auto simp: name_matches_def str_in_sublist derived_symbol_def)

lemma get_direct_impacts_map:
  "get_direct_impacts es = map direct_impact_of (filter (\<lambda>e. ent_type e = ''COMPANY'') es)"
  by (induction es) (simp_all add: direct_impact_of_def CONFIDENCE_direct_def)

lemma derived_symbol_shape:
  "length (derived_symbol company) \<le> 10 \<and> CHR '' '' \<notin> set (derived_symbol company)"
  unfolding derived_symbol_def by (auto dest: in_set_takeD)

text \<open>
  C9. For a company name, the symbol is that of the first entry of the static table whose
  name matches the company by case-insensitive substring match (either contains the
  other); when no entry matches, it is the derived symbol: the name uppercased, spaces
  removed, cut to ten characters. The direct-impact source emits exactly one impact per
  COMPANY entity, in order, carrying that symbol.
\<close>

theorem map_company_to_symbol_first_match_or_derived:
  "(\<forall>pre name symbol suf.
      company_symbols = pre @ (name, symbol) # suf \<and> name_matches name company \<and>
      (\<forall>(n, s) \<in> set pre. \<not> name_matches n company)
      \<longrightarrow> map_company_to_symbol company = symbol) \<and>
   ((\<forall>(n, s) \<in> set company_symbols. \<not> name_matches n company)
      \<longrightarrow> map_company_to_symbol company = derived_symbol company) \<and>
   get_direct_impacts es = map direct_impact_of (filter (\<lambda>e. ent_type e = ''COMPANY'') es)"
  unfolding map_company_to_symbol_def
  using map_company_loop_first_match[of company_symbols _ _ _ _ company]
    map_company_loop_no_match[of company_symbols company]
    get_direct_impacts_map[of es]
  by blast

theorem map_company_to_symbol_first_match_witness:
  "name_matches ''State Bank'' ''State Bank of India'' \<and>
   \<not> name_matches ''HDFC Bank'' ''State Bank of India'' \<and>
   \<not> name_matches ''ICICI Bank'' ''State Bank of India'' \<and>
   map_company_to_symbol ''State Bank of India'' = ''SBIN'' \<and>
   list_all (\<lambda>(n, s). \<not> name_matches n ''Tata Motors Limited'') company_symbols \<and>
   map_company_to_symbol ''Tata Motors Limited'' = ''TATAMOTORS''"
proof -
  have tbl: "company_symbols =
      [(''HDFC Bank'', ''HDFCBANK''), (''ICICI Bank'', ''ICICIBANK'')] @ (''State Bank'', ''SBIN'') #
      [(''Reliance'', ''RELIANCE''), (''TCS'', ''TCS''), (''Infosys'', ''INFY''),
       (''Wipro'', ''WIPRO''), (''Asian Paints'', ''ASIANPAINT''), (''ITC'', ''ITC''),
       (''Larsen'', ''LT'')]"
    by (simp add: company_symbols_def)
  have m: "name_matches ''State Bank'' ''State Bank of India''" by code_simp
  have n1: "\<not> name_matches ''HDFC Bank'' ''State Bank of India''" by code_simp
  have n2: "\<not> name_matches ''ICICI Bank'' ''State Bank of India''" by code_simp
  have n: "\<forall>(n, s) \<in> set [(''HDFC Bank'', ''HDFCBANK''), (''ICICI Bank'', ''ICICIBANK'')].
      \<not> name_matches n ''State Bank of India''"
    using n1 n2 by simp
  have la: "list_all (\<lambda>(n, s). \<not> name_matches n ''Tata Motors Limited'') company_symbols"
    by code_simp
  then have none: "\<forall>(n, s) \<in> set company_symbols. \<not> name_matches n ''Tata Motors Limited''"
    by (simp add: list_all_iff)
  have d: "derived_symbol ''Tata Motors Limited'' = ''TATAMOTORS''" by code_simp
  have "map_company_to_symbol ''State Bank of India'' = ''SBIN''"
    using map_company_to_symbol_first_match_or_derived[of "''State Bank of India''" "[]"] tbl m n
    by blast
  moreover have "map_company_to_symbol ''Tata Motors Limited'' = ''TATAMOTORS''"
    using map_company_to_symbol_first_match_or_derived[of "''Tata Motors Limited''" "[]"] none d
    by simp
  ultimately show ?thesis using m n1 n2 la by blast
qed

section \<open>Storage stage: proofs\<close>

lemma foldl_session_add:
  "foldl session_add s rows = s\<lparr>sess_pending := sess_pending s @ rows\<rparr>"
  by (induction rows arbitrary: s) (simp_all add: session_add_def)

lemma storage_body_eq:
  "storage_body caps st \<lparr>sess_db = d, sess_pending = []\<rparr> =
     (case flush_error caps d (storage_rows st) of
        Some e \<Rightarrow> (\<lparr>sess_db = d, sess_pending = storage_rows st\<rparr>, Some e)
      | None \<Rightarrow> (\<lparr>sess_db = foldl insert_row d (storage_rows st), sess_pending = []\<rparr>, None))"
  by (simp add: storage_body_def storage_rows_def session_commit_def session_add_def
        foldl_session_add Let_def split: option.splits)

lemma get_db_session_storage:
  "get_db_session caps d (storage_body caps st) =
     (case flush_error caps d (storage_rows st) of
        Some e \<Rightarrow> (d, Some e)
      | None \<Rightarrow> (foldl insert_row d (storage_rows st), None))"
  by (simp add: get_db_session_def storage_body_eq session_rollback_def session_commit_def
        split: option.splits)

lemma StorageAgent_process_eq:
  "StorageAgent_process caps w st =
     (case flush_error caps (db w) (storage_rows st) of
        Some e \<Rightarrow> (w, storage_failed st e)
      | None \<Rightarrow>
          (let d = foldl insert_row (db w) (storage_rows st) in
           if is_duplicate st then (w\<lparr>db := d\<rparr>, storage_done st)
           else (case add_article caps (vstore w) (article st) (map ent_text (entities st)) of
                   (vs, Some e) \<Rightarrow> (w\<lparr>db := d, vstore := vs\<rparr>, storage_failed st e)
                 | (vs, None) \<Rightarrow> (w\<lparr>db := d, vstore := vs\<rparr>, storage_done st))))"
  by (simp add: StorageAgent_process_def get_db_session_storage Let_def split: option.splits)

lemma foldl_insert_entity_rows:
  "foldl insert_row d (map (entity_row st) es) =
     d\<lparr>db_extracted_entities := db_extracted_entities d @ map (entity_row st) es\<rparr>"
  by (induction es arbitrary: d) (simp_all add: entity_row_def)

lemma foldl_insert_impact_rows:
  "foldl insert_row d (map (impact_row st) is) =
     d\<lparr>db_stock_impacts := db_stock_impacts d @ map (impact_row st) is\<rparr>"
  by (induction "is" arbitrary: d) (simp_all add: impact_row_def)

lemma insert_article_row:
  "insert_row d (article_row st) = d\<lparr>db_news_articles := db_news_articles d @ [article_row st]\<rparr>"
  by (simp add: article_row_def Let_def)

lemma foldl_insert_storage_rows: "foldl insert_row d (storage_rows st) = persisted d st"
  by (simp add: storage_rows_def persisted_def insert_article_row foldl_insert_entity_rows
        foldl_insert_impact_rows)

lemma stored_flag_failed:
  "error (storage_failed st e) = Some e \<and>
   map_of (processing_metadata (storage_failed st e)) ''stored'' = Some (MBool False) \<and>
   entities (storage_failed st e) = entities st \<and>
   stock_impacts (storage_failed st e) = stock_impacts st"
  by (simp add: storage_failed_def update_conv')

lemma stored_flag_done:
  "error (storage_done st) = error st \<and>
   map_of (processing_metadata (storage_done st)) ''stored'' = Some (MBool True) \<and>
   entities (storage_done st) = entities st \<and>
   stock_impacts (storage_done st) = stock_impacts st"
  by (simp add: storage_done_def update_conv')

lemma add_article_pair:
  "add_article caps vs a ents = (fst (add_article caps vs a ents), snd (add_article caps vs a ents))"
  by simp

text \<open>
  C8. The storage stage queues the article row and, for a state that is not a duplicate,
  the entity and impact rows in one session and commits them in one transaction: the
  database afterwards is either unchanged or holds all of these rows. What the stage
  returns is fixed on each of its paths.
  \<^item> The commit raises: the rows are rolled back, database and index are unchanged,
    \<open>error\<close> carries the message and \<open>stored\<close> is false.
  \<^item> The commit succeeds and the index raises: all the rows are in the database,
    \<open>error\<close> carries the message and \<open>stored\<close> is false.
  \<^item> Nothing raises: all the rows are in the database (for a state that is not a
    duplicate the article is in the index too), \<open>stored\<close> is true and nothing else of the
    state changes.
\<close>

theorem StorageAgent_process_all_or_nothing:
  "(case StorageAgent_process caps w st of
      (w', st') \<Rightarrow>
        (db w' = db w \<or> db w' = persisted (db w) st) \<and>
        ((db w' = persisted (db w) st \<and> error st' = error st \<and>
          map_of (processing_metadata st') ''stored'' = Some (MBool True)) \<or>
         (\<exists>e. error st' = Some e \<and>
              map_of (processing_metadata st') ''stored'' = Some (MBool False))) \<and>
        (\<forall>e. flush_error caps (db w) (storage_rows st) = Some e \<longrightarrow>
             w' = w \<and>
             st' = st\<lparr>error := Some e,
                      processing_metadata :=
                        AList.update ''stored'' (MBool False) (processing_metadata st)\<rparr> \<and>
             map_of (processing_metadata st') ''stored'' = Some (MBool False)) \<and>
        (\<forall>vs e. flush_error caps (db w) (storage_rows st) = None \<and> \<not> is_duplicate st \<and>
             add_article caps (vstore w) (article st) (map ent_text (entities st)) = (vs, Some e)
             \<longrightarrow> w' = w\<lparr>db := persisted (db w) st, vstore := vs\<rparr> \<and>
                 st' = st\<lparr>error := Some e,
                          processing_metadata :=
                            AList.update ''stored'' (MBool False) (processing_metadata st)\<rparr> \<and>
                 map_of (processing_metadata st') ''stored'' = Some (MBool False)) \<and>
        (\<forall>vs. flush_error caps (db w) (storage_rows st) = None \<and> \<not> is_duplicate st \<and>
             add_article caps (vstore w) (article st) (map ent_text (entities st)) = (vs, None)
             \<longrightarrow> w' = w\<lparr>db := persisted (db w) st, vstore := vs\<rparr> \<and>
                 st' = st\<lparr>processing_metadata :=
                            AList.update ''stored'' (MBool True) (processing_metadata st)\<rparr> \<and>
                 map_of (processing_metadata st') ''stored'' = Some (MBool True)) \<and>
        (flush_error caps (db w) (storage_rows st) = None \<and> is_duplicate st
             \<longrightarrow> w' = w\<lparr>db := persisted (db w) st\<rparr> \<and>
                 st' = st\<lparr>processing_metadata :=
                            AList.update ''stored'' (MBool True) (processing_metadata st)\<rparr> \<and>
                 map_of (processing_metadata st') ''stored'' = Some (MBool True)))"
proof (cases "flush_error caps (db w) (storage_rows st)")
  case (Some e)
  then have "StorageAgent_process caps w st = (w, storage_failed st e)"
    by (simp add: StorageAgent_process_eq)
  then show ?thesis
    using Some stored_flag_failed[of st e] by (simp add: storage_failed_def)
next
  case None
  show ?thesis
  proof (cases "is_duplicate st")
    case True
    then have "StorageAgent_process caps w st = (w\<lparr>db := persisted (db w) st\<rparr>, storage_done st)"
      using None by (simp add: StorageAgent_process_eq foldl_insert_storage_rows)
    then show ?thesis
      using None True stored_flag_done[of st] by (simp add: storage_done_def)
  next
    case False
    obtain vs r where aa: "add_article caps (vstore w) (article st) (map ent_text (entities st)) = (vs, r)"
      by (cases "add_article caps (vstore w) (article st) (map ent_text (entities st))")
    show ?thesis
    proof (cases r)
      case None' : None
      then have "StorageAgent_process caps w st =
          (w\<lparr>db := persisted (db w) st, vstore := vs\<rparr>, storage_done st)"
        using None False aa by (simp add: StorageAgent_process_eq foldl_insert_storage_rows)
      then show ?thesis
        using None None' False aa stored_flag_done[of st] by (simp add: storage_done_def)
    next
      case (Some e)
      then have "StorageAgent_process caps w st =
          (w\<lparr>db := persisted (db w) st, vstore := vs\<rparr>, storage_failed st e)"
        using None False aa by (simp add: StorageAgent_process_eq foldl_insert_storage_rows)
      then show ?thesis
        using None Some False aa stored_flag_failed[of st e] by (simp add: storage_failed_def)
    qed
  qed
qed

theorem StorageAgent_process_all_or_nothing_witness:
  "flush_error ex_caps (db ex_world) (storage_rows ex_state) = None \<and>
   \<not> is_duplicate ex_state \<and>
   snd (add_article ex_caps (vstore ex_world) (article ex_state)
          (map ent_text (entities ex_state))) = None \<and>
   fst (StorageAgent_process ex_caps ex_world ex_state)
     = ex_world\<lparr>db := persisted (db ex_world) ex_state,
                vstore := fst (add_article ex_caps (vstore ex_world) (article ex_state)
                                 (map ent_text (entities ex_state)))\<rparr> \<and>
   snd (StorageAgent_process ex_caps ex_world ex_state)
     = ex_state\<lparr>processing_metadata :=
                   AList.update ''stored'' (MBool True) (processing_metadata ex_state)\<rparr> \<and>
   db_news_articles (db (fst (StorageAgent_process ex_caps ex_world ex_state)))
     = [article_row ex_state] \<and>
   db_extracted_entities (db (fst (StorageAgent_process ex_caps ex_world ex_state)))
     = [ExtractedEntityDB ''N1'' ''HDFC Bank'' ''COMPANY'' 0.9] \<and>
   db_stock_impacts (db (fst (StorageAgent_process ex_caps ex_world ex_state)))
     = [StockImpactDB ''N1'' ''HDFCBANK'' 1 ''direct'' None] \<and>
   flush_error (ex_caps\<lparr>flush_error := (\<lambda>d rows. Some ''UNIQUE constraint failed'')\<rparr>)
     (db ex_world) (storage_rows ex_state) = Some ''UNIQUE constraint failed'' \<and>
   fst (StorageAgent_process
          (ex_caps\<lparr>flush_error := (\<lambda>d rows. Some ''UNIQUE constraint failed'')\<rparr>)
          ex_world ex_state) = ex_world \<and>
   snd (StorageAgent_process
          (ex_caps\<lparr>flush_error := (\<lambda>d rows. Some ''UNIQUE constraint failed'')\<rparr>)
          ex_world ex_state)
     = ex_state\<lparr>error := Some ''UNIQUE constraint failed'',
                processing_metadata :=
                  AList.update ''stored'' (MBool False) (processing_metadata ex_state)\<rparr>"
proof -
  let ?bad = "ex_caps\<lparr>flush_error := (\<lambda>d rows. Some ''UNIQUE constraint failed'')\<rparr>"
  let ?aa = "add_article ex_caps (vstore ex_world) (article ex_state)
               (map ent_text (entities ex_state))"
  have h1: "flush_error ex_caps (db ex_world) (storage_rows ex_state) = None"
    by (simp add: ex_caps_def)
  have h2: "\<not> is_duplicate ex_state"
    by (simp add: ex_state_def initial_state_def)
  have h3: "snd ?aa = None"
    by (simp add: add_article_def add_documents_def ex_caps_def Let_def ex_state_def)
  have pair: "?aa = (fst ?aa, None)"
    using h3 add_article_pair[of ex_caps "vstore ex_world" "article ex_state"
        "map ent_text (entities ex_state)"] by simp
  have rows: "map (entity_row ex_state) (entities ex_state) =
        [ExtractedEntityDB ''N1'' ''HDFC Bank'' ''COMPANY'' 0.9]"
     "map (impact_row ex_state) (stock_impacts ex_state) =
        [StockImpactDB ''N1'' ''HDFCBANK'' 1 ''direct'' None]"
     "db ex_world = \<lparr>db_news_articles = [], db_extracted_entities = [], db_stock_impacts = []\<rparr>"
    by (simp_all add: ex_state_def ex_world_def ex_article_def initial_state_def entity_row_def
          impact_row_def mk_entity_def)
  note ok = StorageAgent_process_all_or_nothing[where caps = ex_caps and w = ex_world
      and st = ex_state, unfolded case_prod_unfold]
  from ok h1 h2 pair
  have s1: "fst (StorageAgent_process ex_caps ex_world ex_state)
      = ex_world\<lparr>db := persisted (db ex_world) ex_state, vstore := fst ?aa\<rparr>"
    and s2: "snd (StorageAgent_process ex_caps ex_world ex_state)
      = ex_state\<lparr>processing_metadata :=
                    AList.update ''stored'' (MBool True) (processing_metadata ex_state)\<rparr>"
    by blast+
  have s3: "db_news_articles (db (fst (StorageAgent_process ex_caps ex_world ex_state)))
       = [article_row ex_state]"
    and s4: "db_extracted_entities (db (fst (StorageAgent_process ex_caps ex_world ex_state)))
       = [ExtractedEntityDB ''N1'' ''HDFC Bank'' ''COMPANY'' 0.9]"
    and s5: "db_stock_impacts (db (fst (StorageAgent_process ex_caps ex_world ex_state)))
       = [StockImpactDB ''N1'' ''HDFCBANK'' 1 ''direct'' None]"
    unfolding s1 using h2 by (simp_all add: persisted_def rows)
  have b1: "flush_error ?bad (db ex_world) (storage_rows ex_state) = Some ''UNIQUE constraint failed''"
    by simp
  note bad = StorageAgent_process_all_or_nothing[where caps = ?bad and w = ex_world
      and st = ex_state, unfolded case_prod_unfold]
  from bad b1
  have r1: "fst (StorageAgent_process ?bad ex_world ex_state) = ex_world"
    and r2: "snd (StorageAgent_process ?bad ex_world ex_state)
      = ex_state\<lparr>error := Some ''UNIQUE constraint failed'',
                 processing_metadata :=
                   AList.update ''stored'' (MBool False) (processing_metadata ex_state)\<rparr>"
    by blast+
  from h1 h2 h3 s1 s2 s3 s4 s5 b1 r1 r2 show ?thesis by blast
qed

text \<open>
  C10. For a state that is not a duplicate, when the commit succeeds and the insertion
  into the similarity index then raises, the stage reports failure (\<open>error\<close> set to the
  message, \<open>stored\<close> false) while the article, entity and impact rows stay committed: the
  database write and the index write are not atomic with each other. The index is left
  as the failed insertion left it.
\<close>

theorem StorageAgent_process_index_failure_after_commit:
  assumes "\<not> is_duplicate st"
    and "flush_error caps (db w) (storage_rows st) = None"
    and "add_article caps (vstore w) (article st) (map ent_text (entities st)) = (vs, Some e)"
  shows "(case StorageAgent_process caps w st of
            (w', st') \<Rightarrow>
              error st' = Some e \<and>
              map_of (processing_metadata st') ''stored'' = Some (MBool False) \<and>
              db w' = persisted (db w) st \<and>
              db_news_articles (db w') = db_news_articles (db w) @ [article_row st] \<and>
              db_extracted_entities (db w') =
                db_extracted_entities (db w) @ map (entity_row st) (entities st) \<and>
              db_stock_impacts (db w') =
                db_stock_impacts (db w) @ map (impact_row st) (stock_impacts st) \<and>
              vstore w' = vs)"
proof -
  have "StorageAgent_process caps w st =
      (w\<lparr>db := persisted (db w) st, vstore := vs\<rparr>, storage_failed st e)"
    using assms by (simp add: StorageAgent_process_eq foldl_insert_storage_rows)
  then show ?thesis
    using assms(1) stored_flag_failed[of st e] by (simp add: persisted_def)
qed

theorem StorageAgent_process_index_failure_witness:
  "\<not> is_duplicate ex_state \<and>
   flush_error (ex_caps\<lparr>embedding_error := (\<lambda>texts. Some ''embedding service down'')\<rparr>)
     (db ex_world) (storage_rows ex_state) = None \<and>
   add_article (ex_caps\<lparr>embedding_error := (\<lambda>texts. Some ''embedding service down'')\<rparr>)
     (vstore ex_world) (article ex_state) (map ent_text (entities ex_state))
     = (vstore ex_world, Some ''embedding service down'') \<and>
   error (snd (StorageAgent_process
              (ex_caps\<lparr>embedding_error := (\<lambda>texts. Some ''embedding service down'')\<rparr>)
              ex_world ex_state)) = Some ''embedding service down'' \<and>
   map_of (processing_metadata (snd (StorageAgent_process
              (ex_caps\<lparr>embedding_error := (\<lambda>texts. Some ''embedding service down'')\<rparr>)
              ex_world ex_state))) ''stored'' = Some (MBool False) \<and>
   db_news_articles (db (fst (StorageAgent_process
              (ex_caps\<lparr>embedding_error := (\<lambda>texts. Some ''embedding service down'')\<rparr>)
              ex_world ex_state))) = [article_row ex_state] \<and>
   db_extracted_entities (db (fst (StorageAgent_process
              (ex_caps\<lparr>embedding_error := (\<lambda>texts. Some ''embedding service down'')\<rparr>)
              ex_world ex_state))) = [ExtractedEntityDB ''N1'' ''HDFC Bank'' ''COMPANY'' 0.9] \<and>
   db_stock_impacts (db (fst (StorageAgent_process
              (ex_caps\<lparr>embedding_error := (\<lambda>texts. Some ''embedding service down'')\<rparr>)
              ex_world ex_state))) = [StockImpactDB ''N1'' ''HDFCBANK'' 1 ''direct'' None]"
proof -
  let ?caps = "ex_caps\<lparr>embedding_error := (\<lambda>texts. Some ''embedding service down'')\<rparr>"
  have h1: "\<not> is_duplicate ex_state"
    by (simp add: ex_state_def initial_state_def)
  have h2: "flush_error ?caps (db ex_world) (storage_rows ex_state) = None"
    by (simp add: ex_caps_def)
  have h3: "add_article ?caps (vstore ex_world) (article ex_state) (map ent_text (entities ex_state))
      = (vstore ex_world, Some ''embedding service down'')"
    by (simp add: add_article_def add_documents_def Let_def)
  have rows: "map (entity_row ex_state) (entities ex_state) =
        [ExtractedEntityDB ''N1'' ''HDFC Bank'' ''COMPANY'' 0.9]"
     "map (impact_row ex_state) (stock_impacts ex_state) =
        [StockImpactDB ''N1'' ''HDFCBANK'' 1 ''direct'' None]"
     "db ex_world = \<lparr>db_news_articles = [], db_extracted_entities = [], db_stock_impacts = []\<rparr>"
    by (simp_all add: ex_state_def ex_world_def ex_article_def initial_state_def entity_row_def
          impact_row_def mk_entity_def)
  show ?thesis
    using StorageAgent_process_index_failure_after_commit[OF h1 h2 h3] h1 h2 h3
    by (simp add: case_prod_unfold rows persisted_def)
qed

section \<open>Deduplication stage and the error field: proofs\<close>

lemma find_duplicates_unbound:
  "find_duplicates caps None vs a None = Inl NameError_message"
  by (simp add: find_duplicates_def NameError_message_def)

lemma DeduplicationAgent_process_unbound:
  "DeduplicationAgent_process caps None vs st = st\<lparr>error := Some NameError_message\<rparr>"
  by (simp add: DeduplicationAgent_process_def find_duplicates_unbound)

lemma process_article_dedup_error:
  "DeduplicationAgent_process caps vector_store_SIMILARITY_THRESHOLD vs st =
     st\<lparr>error := Some NameError_message\<rparr>"
  by (simp add: vector_store_SIMILARITY_THRESHOLD_def DeduplicationAgent_process_unbound)

lemma EntityExtractionAgent_process_frame:
  "is_duplicate (EntityExtractionAgent_process caps st) = is_duplicate st \<and>
   duplicate_of (EntityExtractionAgent_process caps st) = duplicate_of st \<and>
   article (EntityExtractionAgent_process caps st) = article st \<and>
   stock_impacts (EntityExtractionAgent_process caps st) = stock_impacts st"
  by (simp add: EntityExtractionAgent_process_def Let_def split: sum.splits)

lemma StockImpactAgent_process_frame:
  "is_duplicate (StockImpactAgent_process caps st) = is_duplicate st \<and>
   duplicate_of (StockImpactAgent_process caps st) = duplicate_of st \<and>
   article (StockImpactAgent_process caps st) = article st \<and>
   entities (StockImpactAgent_process caps st) = entities st \<and>
   error (StockImpactAgent_process caps st) = error st"
  by (simp add: StockImpactAgent_process_def Let_def)

lemma StorageAgent_process_frame:
  "is_duplicate (snd (StorageAgent_process caps w st)) = is_duplicate st \<and>
   duplicate_of (snd (StorageAgent_process caps w st)) = duplicate_of st \<and>
   article (snd (StorageAgent_process caps w st)) = article st \<and>
   entities (snd (StorageAgent_process caps w st)) = entities st \<and>
   stock_impacts (snd (StorageAgent_process caps w st)) = stock_impacts st"
  by (simp add: StorageAgent_process_eq storage_failed_def storage_done_def Let_def
        split: option.splits prod.splits)

lemma DeduplicationAgent_process_frame:
  "article (DeduplicationAgent_process caps glob vs st) = article st \<and>
   entities (DeduplicationAgent_process caps glob vs st) = entities st \<and>
   stock_impacts (DeduplicationAgent_process caps glob vs st) = stock_impacts st"
  by (simp add: DeduplicationAgent_process_def split: sum.splits list.splits prod.splits)

lemma duplicate_candidates_filter:
  assumes "list_all (\<lambda>(d, s). map_of (metadata d) ''article_id'' \<noteq> None) results"
  shows "duplicate_candidates t own results =
           Some (map (\<lambda>(d, s). (the (map_of (metadata d) ''article_id''), 1 - s))
                  (filter (\<lambda>(d, s). 1 - s \<ge> t \<and> map_of (metadata d) ''article_id'' \<noteq> Some own)
                     results))"
  using assms
proof (induction results)
  case Nil
  show ?case by simp
next
  case (Cons r results)
  obtain d s where r: "r = (d, s)" by (cases r)
  from Cons.prems r obtain aid where a: "map_of (metadata d) ''article_id'' = Some aid"
    by auto
  from Cons.prems have "list_all (\<lambda>(d, s). map_of (metadata d) ''article_id'' \<noteq> None) results"
    by simp
  then have IH: "duplicate_candidates t own results =
           Some (map (\<lambda>(d, s). (the (map_of (metadata d) ''article_id''), 1 - s))
                  (filter (\<lambda>(d, s). 1 - s \<ge> t \<and> map_of (metadata d) ''article_id'' \<noteq> Some own)
                     results))"
    by (rule Cons.IH)
  show ?case by (simp add: r a IH)
qed

lemma duplicate_candidates_nearest_first:
  assumes wf: "list_all (\<lambda>(d, s). map_of (metadata d) ''article_id'' \<noteq> None) results"
    and asc: "sorted (map snd results)"
    and hd: "duplicate_candidates t own results = Some ((i, sim) # rest)"
  shows "list_all (\<lambda>(j, sim'). sim' \<le> sim) rest"
proof -
  let ?g = "\<lambda>(d, s). (the (map_of (metadata d) ''article_id''), 1 - s)"
  let ?P = "\<lambda>(d, s). 1 - s \<ge> t \<and> map_of (metadata d) ''article_id'' \<noteq> Some own"
  have eq: "(i, sim) # rest = map ?g (filter ?P results)"
    using duplicate_candidates_filter[OF wf, of t own] hd by simp
  from asc have "sorted_wrt (\<lambda>x y. snd x \<le> snd y) results"
    by (simp add: sorted_wrt_map)
  then have "sorted_wrt (\<lambda>x y. snd x \<le> snd y) (filter ?P results)"
    by (rule sorted_wrt_filter)
  then have "sorted_wrt (\<lambda>x y. snd (?g y) \<le> snd (?g x)) (filter ?P results)"
    by (rule sorted_wrt_mono_rel[rotated]) (auto split: prod.splits)
  then have "sorted_wrt (\<lambda>a b. snd b \<le> snd a) (map ?g (filter ?P results))"
    by (simp add: sorted_wrt_map)
  then have "sorted_wrt (\<lambda>a b. snd b \<le> snd a) ((i, sim) # rest)"
    using eq by simp
  then have "\<forall>y \<in> set rest. snd y \<le> sim" by simp
  then show ?thesis by (auto simp: list_all_iff)
qed

text \<open>
  With the threshold name bound to \<open>t\<close> and an index that answers with documents
  carrying their article id, the stage does what its comments say: the candidates are
  the documents of another id with similarity \<open>1 - distance\<close> at least \<open>t\<close>, in the
  order of the index; none makes the state a non-duplicate, otherwise the first one
  is the duplicate pointer and its similarity goes into the metadata.
\<close>

lemma DeduplicationAgent_process_bound_threshold:
  assumes "similarity_search_with_score caps (news_collection vs)
             (title (article st) @ [CHR 0x0A, CHR 0x0A] @ content (article st)) 5 = Inr results"
    and "list_all (\<lambda>(d, s). map_of (metadata d) ''article_id'' \<noteq> None) results"
  shows "DeduplicationAgent_process caps (Some t) vs st =
           (case map (\<lambda>(d, s). (the (map_of (metadata d) ''article_id''), 1 - s))
                   (filter (\<lambda>(d, s). 1 - s \<ge> t \<and>
                              map_of (metadata d) ''article_id'' \<noteq> Some (article_id (article st)))
                      results) of
              [] \<Rightarrow> st\<lparr>is_duplicate := False\<rparr>
            | (duplicate_id, similarity) # _ \<Rightarrow>
                st\<lparr>is_duplicate := True, duplicate_of := Some duplicate_id,
                   processing_metadata :=
                     AList.update ''duplicate_similarity'' (MFloat similarity)
                       (processing_metadata st)\<rparr>)"
proof -
  have "find_duplicates caps (Some t) vs (article st) None =
      Inr (map (\<lambda>(d, s). (the (map_of (metadata d) ''article_id''), 1 - s))
             (filter (\<lambda>(d, s). 1 - s \<ge> t \<and>
                        map_of (metadata d) ''article_id'' \<noteq> Some (article_id (article st)))
                results))"
    unfolding find_duplicates_def assms(1)
    by (simp add: duplicate_candidates_filter[OF assms(2)])
  then show ?thesis
    unfolding DeduplicationAgent_process_def by (simp split: list.splits)
qed

text \<open>
  C2 at a failing input. The index holds article N1; the same text arrives as N2 and
  the index returns N1 at distance 0. With the threshold name bound (to 0.9) the stage
  would mark N2 a duplicate of N1 with similarity 1. The stage of the source reads the
  unbound name: it returns the state with \<open>error\<close> set to the NameError message,
  \<open>is_duplicate\<close> false, no duplicate pointer and no similarity in the metadata.
\<close>

theorem DeduplicationAgent_process_unbound_threshold_at_duplicate:
  "similarity_search_with_score ex_caps (news_collection (vstore ex_indexed_world))
     (title ex_article2 @ [CHR 0x0A, CHR 0x0A] @ content ex_article2) 5
     = Inr [(\<lparr>page_content = title ex_article @ [CHR 0x0A, CHR 0x0A] @ content ex_article,
              metadata = [(''article_id'', ''N1'')]\<rparr>, 0)] \<and>
   DeduplicationAgent_process ex_caps (Some 0.9) (vstore ex_indexed_world)
     (initial_state ex_article2)
     = (initial_state ex_article2)
         \<lparr>is_duplicate := True, duplicate_of := Some ''N1'',
          processing_metadata := [(''duplicate_similarity'', MFloat 1)]\<rparr> \<and>
   DeduplicationAgent_process ex_caps vector_store_SIMILARITY_THRESHOLD (vstore ex_indexed_world)
     (initial_state ex_article2)
     = (initial_state ex_article2)\<lparr>error := Some NameError_message\<rparr> \<and>
   is_duplicate (snd (process_article ex_caps ex_indexed_world ex_article2)) = False \<and>
   duplicate_of (snd (process_article ex_caps ex_indexed_world ex_article2)) = None"
proof -
  have q: "similarity_search_with_score ex_caps (news_collection (vstore ex_indexed_world))
     (title ex_article2 @ [CHR 0x0A, CHR 0x0A] @ content ex_article2) 5
     = Inr [(\<lparr>page_content = title ex_article @ [CHR 0x0A, CHR 0x0A] @ content ex_article,
              metadata = [(''article_id'', ''N1'')]\<rparr>, 0)]"
    by code_simp
  have bound: "DeduplicationAgent_process ex_caps (Some 0.9) (vstore ex_indexed_world)
     (initial_state ex_article2)
     = (initial_state ex_article2)
         \<lparr>is_duplicate := True, duplicate_of := Some ''N1'',
          processing_metadata := [(''duplicate_similarity'', MFloat 1)]\<rparr>"
    by code_simp
  have src: "DeduplicationAgent_process ex_caps vector_store_SIMILARITY_THRESHOLD
      (vstore ex_indexed_world) (initial_state ex_article2)
     = (initial_state ex_article2)\<lparr>error := Some NameError_message\<rparr>"
    by (rule process_article_dedup_error)
  have fin: "is_duplicate (snd (process_article ex_caps ex_indexed_world ex_article2)) = False \<and>
      duplicate_of (snd (process_article ex_caps ex_indexed_world ex_article2)) = None"
    unfolding process_article_def pipeline_def
    by (simp add: StorageAgent_process_frame StockImpactAgent_process_frame
          EntityExtractionAgent_process_frame process_article_dedup_error initial_state_def)
  from q bound src fin show ?thesis by blast
qed

lemma find_duplicates_index_raises:
  assumes "similarity_search_with_score caps (news_collection vs)
             (title a @ [CHR 0x0A, CHR 0x0A] @ content a) 5 = Inl msg"
  shows "find_duplicates caps glob vs a (Some t) = Inr []"
    and "find_duplicates caps (Some t) vs a None = Inr []"
  using assms by (simp_all add: find_duplicates_def)

lemma DeduplicationAgent_process_cases:
  "(find_duplicates caps glob vs (article st) None = Inr [] \<longrightarrow>
      DeduplicationAgent_process caps glob vs st = st\<lparr>is_duplicate := False\<rparr>) \<and>
   (\<forall>e. find_duplicates caps glob vs (article st) None = Inl e \<longrightarrow>
      DeduplicationAgent_process caps glob vs st = st\<lparr>error := Some e\<rparr>)"
  by (simp add: DeduplicationAgent_process_def)

text \<open>
  C5 as stated fails. With the index raising "index down": \<^verbatim>\<open>find_duplicates\<close> called
  with a threshold returns the empty list, so no message reaches the stage; with the
  threshold name bound the stage returns with \<open>error\<close> unset; and the stage of the
  source does not record the index's message either.
\<close>

theorem dedup_index_exception_not_recorded_counterexample:
  "similarity_search_with_score ex_caps_index_down (news_collection (vstore ex_world))
     (title ex_article @ [CHR 0x0A, CHR 0x0A] @ content ex_article) 5 = Inl ''index down'' \<and>
   find_duplicates ex_caps_index_down vector_store_SIMILARITY_THRESHOLD (vstore ex_world)
     ex_article (Some 0.9) = Inr [] \<and>
   error (DeduplicationAgent_process ex_caps_index_down (Some 0.9) (vstore ex_world)
     (initial_state ex_article)) = None \<and>
   error (DeduplicationAgent_process ex_caps_index_down vector_store_SIMILARITY_THRESHOLD
     (vstore ex_world) (initial_state ex_article)) \<noteq> Some ''index down''"
proof -
  let ?caps = "ex_caps_index_down"
  have r: "similarity_search_with_score ?caps (news_collection (vstore ex_world))
     (title ex_article @ [CHR 0x0A, CHR 0x0A] @ content ex_article) 5 = Inl ''index down''"
    by (simp add: ex_caps_index_down_def)
  have art: "article (initial_state ex_article) = ex_article"
    by (simp add: initial_state_def)
  have "find_duplicates ?caps (Some 0.9) (vstore ex_world) ex_article None = Inr []"
    using r by (rule find_duplicates_index_raises(2))
  then have "DeduplicationAgent_process ?caps (Some 0.9) (vstore ex_world) (initial_state ex_article)
      = (initial_state ex_article)\<lparr>is_duplicate := False\<rparr>"
    by (simp add: DeduplicationAgent_process_def art)
  then have b: "error (DeduplicationAgent_process ?caps (Some 0.9) (vstore ex_world)
      (initial_state ex_article)) = None"
    by (simp add: initial_state_def)
  have c: "error (DeduplicationAgent_process ?caps vector_store_SIMILARITY_THRESHOLD
      (vstore ex_world) (initial_state ex_article)) \<noteq> Some ''index down''"
    by (simp add: process_article_dedup_error NameError_message_def)
  from r find_duplicates_index_raises(1)[OF r] b c show ?thesis by blast
qed

text \<open>
  C5 as amended. An exception of the similarity index is caught inside
  \<^verbatim>\<open>find_duplicates\<close>, which returns the empty list: the index's message is not
  recorded. When \<^verbatim>\<open>find_duplicates\<close> returns the empty list, the stage returns the
  state with \<open>is_duplicate\<close> false and \<open>error\<close> as it was. An exception that escapes
  \<^verbatim>\<open>find_duplicates\<close> is caught by the stage: its message is recorded in \<open>error\<close>
  and the state is returned otherwise unmodified.
\<close>

theorem dedup_index_exception_swallowed:
  assumes "similarity_search_with_score caps (news_collection vs)
             (title (article st) @ [CHR 0x0A, CHR 0x0A] @ content (article st)) 5 = Inl msg"
  shows "find_duplicates caps glob vs (article st) (Some t) = Inr [] \<and>
         find_duplicates caps (Some t) vs (article st) None = Inr [] \<and>
         (find_duplicates caps glob vs (article st) None = Inr [] \<longrightarrow>
            DeduplicationAgent_process caps glob vs st = st\<lparr>is_duplicate := False\<rparr>) \<and>
         (\<forall>e. find_duplicates caps glob vs (article st) None = Inl e \<longrightarrow>
            DeduplicationAgent_process caps glob vs st = st\<lparr>error := Some e\<rparr>)"
  using find_duplicates_index_raises[OF assms] DeduplicationAgent_process_cases[of caps glob vs st]
  by blast

theorem dedup_index_exception_swallowed_witness:
  "similarity_search_with_score
     (ex_caps\<lparr>similarity_search_with_score := (\<lambda>coll q k. Inl ''index down'')\<rparr>)
     (news_collection (vstore ex_world))
     (title (article (initial_state ex_article)) @ [CHR 0x0A, CHR 0x0A]
        @ content (article (initial_state ex_article))) 5 = Inl ''index down'' \<and>
   find_duplicates
     (ex_caps\<lparr>similarity_search_with_score := (\<lambda>coll q k. Inl ''index down'')\<rparr>)
     (Some 0.9) (vstore ex_world) (article (initial_state ex_article)) None = Inr [] \<and>
   DeduplicationAgent_process
     (ex_caps\<lparr>similarity_search_with_score := (\<lambda>coll q k. Inl ''index down'')\<rparr>)
     (Some 0.9) (vstore ex_world) (initial_state ex_article)
     = (initial_state ex_article)\<lparr>is_duplicate := False\<rparr> \<and>
   find_duplicates
     (ex_caps\<lparr>similarity_search_with_score := (\<lambda>coll q k. Inl ''index down'')\<rparr>)
     None (vstore ex_world) (article (initial_state ex_article)) None = Inl NameError_message \<and>
   DeduplicationAgent_process
     (ex_caps\<lparr>similarity_search_with_score := (\<lambda>coll q k. Inl ''index down'')\<rparr>)
     None (vstore ex_world) (initial_state ex_article)
     = (initial_state ex_article)\<lparr>error := Some NameError_message\<rparr>"
proof -
  let ?caps = "ex_caps\<lparr>similarity_search_with_score := (\<lambda>coll q k. Inl ''index down'')\<rparr>"
  let ?st = "initial_state ex_article"
  have r: "similarity_search_with_score ?caps (news_collection (vstore ex_world))
     (title (article ?st) @ [CHR 0x0A, CHR 0x0A] @ content (article ?st)) 5 = Inl ''index down''"
    by simp
  have n: "find_duplicates ?caps None (vstore ex_world) (article ?st) None = Inl NameError_message"
    by (rule find_duplicates_unbound)
  from dedup_index_exception_swallowed[OF r, of "Some 0.9" "0.9"]
  have 1: "find_duplicates ?caps (Some 0.9) (vstore ex_world) (article ?st) None = Inr []"
    and 2: "DeduplicationAgent_process ?caps (Some 0.9) (vstore ex_world) ?st
             = ?st\<lparr>is_duplicate := False\<rparr>"
    by blast+
  from dedup_index_exception_swallowed[OF r, of None "0.9"] n
  have 3: "DeduplicationAgent_process ?caps None (vstore ex_world) ?st
             = ?st\<lparr>error := Some NameError_message\<rparr>"
    by blast
  from r 1 2 n 3 show ?thesis by blast
qed


text \<open>
  The extraction stage's own handler: an answer of the language model that is not a dict,
  or whose entry is not iterable, raises inside the stage and ends in \<open>error\<close>.
\<close>

lemma EntityExtractionAgent_process_malformed_answer:
  "error (EntityExtractionAgent_process
            (ex_caps\<lparr>extraction_chain := (\<lambda>t c. Inr (JObj [(''companies'', JNull)]))\<rparr>)
            (initial_state ex_article))
     = Some (quoted ''NoneType'' @ '' object is not iterable'') \<and>
   error (EntityExtractionAgent_process
            (ex_caps\<lparr>extraction_chain := (\<lambda>t c. Inr (JArr []))\<rparr>)
            (initial_state ex_article))
     = Some (quoted ''list'' @ '' object has no attribute '' @ quoted ''get'')"
  by (simp add: EntityExtractionAgent_process_def extract_with_spacy_def extract_with_llm_def
        llm_extracted_entities_def llm_category_def py_get_def py_iter_def py_type_name_def
        ex_caps_def initial_state_def Let_def)





section \<open>Language-model failures: proofs\<close>

lemma extract_with_llm_raises:
  "extraction_chain caps t c = Inl m \<Longrightarrow>
     extract_with_llm caps t c =
       JObj [(''companies'', JArr []), (''sectors'', JArr []), (''regulators'', JArr []),
             (''people'', JArr []), (''events'', JArr [])]"
  by (simp add: extract_with_llm_def)

lemma llm_extracted_entities_five_empty:
  "llm_extracted_entities caps
     (JObj [(''companies'', JArr []), (''sectors'', JArr []), (''regulators'', JArr []),
            (''people'', JArr []), (''events'', JArr [])]) = Inr []"
  by (simp add: llm_extracted_entities_def llm_category_def py_get_def py_iter_def)

lemma analyze_with_llm_raises:
  assumes "\<forall>cs ss rs es. \<exists>m. impact_chain caps t c cs ss rs es = Inl m"
  shows "analyze_with_llm caps t c ents = []"
proof -
  let ?texts = "\<lambda>ty. map ent_text (filter (\<lambda>e. ent_type e = ty) ents)"
  from assms obtain m where
    "impact_chain caps t c (join_or_None (?texts ''COMPANY'')) (join_or_None (?texts ''SECTOR''))
       (join_or_None (?texts ''REGULATOR'')) (join_or_None (?texts ''EVENT'')) = Inl m"
    by blast
  then show ?thesis by (simp add: analyze_with_llm_def Let_def)
qed

lemma EntityExtractionAgent_process_error:
  assumes "nlp_ents caps (title (article st) @ '' '' @ content (article st)) = Inr ents"
    and "llm_extracted_entities caps
           (extract_with_llm caps (title (article st)) (content (article st))) = Inr les"
  shows "error (EntityExtractionAgent_process caps st) = error st"
  using assms
  by (simp add: EntityExtractionAgent_process_def extract_with_spacy_def Let_def)

lemma add_article_no_embedding_error:
  assumes "\<forall>texts. embedding_error caps texts = None"
  shows "snd (add_article caps vs a ents) = None"
  using assms by (simp add: add_article_def add_documents_def Let_def)

lemma StorageAgent_process_error:
  assumes "\<forall>d rows. flush_error caps d rows = None"
    and "\<forall>texts. embedding_error caps texts = None"
  shows "error (snd (StorageAgent_process caps w st)) = error st"
proof -
  have "snd (add_article caps (vstore w) (article st) (map ent_text (entities st))) = None"
    using assms(2) by (rule add_article_no_embedding_error)
  then obtain vs where
    aa: "add_article caps (vstore w) (article st) (map ent_text (entities st)) = (vs, None)"
    by (cases "add_article caps (vstore w) (article st) (map ent_text (entities st))") simp
  show ?thesis
    using assms(1) by (simp add: StorageAgent_process_eq aa storage_done_def Let_def)
qed

lemma DeduplicationAgent_process_bound_error:
  "error (DeduplicationAgent_process caps (Some t) vs st) = error st"
  by (simp add: DeduplicationAgent_process_def find_duplicates_def
        split: sum.splits list.splits option.splits prod.splits)

text \<open>
  When nothing but the language model raises, the pipeline hands on the \<open>error\<close> that the
  deduplication stage leaves: none once the threshold name is bound, the NameError
  message in the pipeline of the source.
\<close>

lemma pipeline_error_is_dedup_error:
  assumes "nlp_ents caps (title a @ '' '' @ content a) = Inr ents"
    and "llm_extracted_entities caps (extract_with_llm caps (title a) (content a)) = Inr les"
    and "\<forall>d rows. flush_error caps d rows = None"
    and "\<forall>texts. embedding_error caps texts = None"
  shows "error (snd (pipeline caps glob w a)) =
           error (DeduplicationAgent_process caps glob (vstore w) (initial_state a))"
proof -
  let ?d = "DeduplicationAgent_process caps glob (vstore w) (initial_state a)"
  have ad: "article ?d = a"
    by (simp add: DeduplicationAgent_process_frame initial_state_def)
  have e: "error (EntityExtractionAgent_process caps ?d) = error ?d"
    using assms(1,2) ad by (intro EntityExtractionAgent_process_error) simp_all
  have s: "error (StockImpactAgent_process caps (EntityExtractionAgent_process caps ?d))
      = error (EntityExtractionAgent_process caps ?d)"
    by (simp add: StockImpactAgent_process_frame)
  show ?thesis
    unfolding pipeline_def
    using StorageAgent_process_error[OF assms(3,4)] e s by simp
qed

lemma process_article_error_never_None:
  "error (snd (process_article caps w a)) \<noteq> None"
proof -
  let ?d = "DeduplicationAgent_process caps vector_store_SIMILARITY_THRESHOLD (vstore w)
              (initial_state a)"
  have d: "error ?d \<noteq> None" by (simp add: process_article_dedup_error)
  have e: "error (EntityExtractionAgent_process caps ?d) \<noteq> None"
    using d by (simp add: EntityExtractionAgent_process_def Let_def split: sum.splits)
  have s: "error (StockImpactAgent_process caps (EntityExtractionAgent_process caps ?d)) \<noteq> None"
    using e by (simp add: StockImpactAgent_process_frame)
  have "\<And>st. error st \<noteq> None \<Longrightarrow> error (snd (StorageAgent_process caps w st)) \<noteq> None"
    by (simp add: StorageAgent_process_eq storage_done_def storage_failed_def Let_def
          split: option.splits prod.splits)
  with s show ?thesis unfolding process_article_def pipeline_def by blast
qed

text \<open>
  C7 at two failing inputs: the example article with an extraction model that raises,
  and with a reasoning model that raises; nothing else fails. The failure is degraded as
  the claim says (\<^verbatim>\<open>extract_with_llm\<close> returns the five empty lists,
  \<^verbatim>\<open>analyze_with_llm\<close> the empty list), and with the threshold name bound the pipeline
  returns \<open>error = None\<close>. The pipeline of the source returns with \<open>error\<close> set to the
  NameError message of the deduplication stage.
\<close>

theorem process_article_llm_down_error_set:
  "extraction_chain ex_caps_extraction_down (title ex_article) (content ex_article)
     = Inl ''llm down'' \<and>
   extract_with_llm ex_caps_extraction_down (title ex_article) (content ex_article)
     = JObj [(''companies'', JArr []), (''sectors'', JArr []), (''regulators'', JArr []),
             (''people'', JArr []), (''events'', JArr [])] \<and>
   error (snd (pipeline ex_caps_extraction_down (Some 0.9) ex_world ex_article)) = None \<and>
   error (snd (process_article ex_caps_extraction_down ex_world ex_article))
     = Some NameError_message \<and>
   impact_chain ex_caps_impact_down (title ex_article) (content ex_article)
     ''HDFC Bank'' ''Banking'' ''RBI'' ''None'' = Inl ''llm down'' \<and>
   analyze_with_llm ex_caps_impact_down (title ex_article) (content ex_article)
     [mk_entity ''HDFC Bank'' ''COMPANY'' 0.9, mk_entity ''Banking'' ''SECTOR'' 0.7,
      mk_entity ''RBI'' ''REGULATOR'' 0.95] = [] \<and>
   error (snd (pipeline ex_caps_impact_down (Some 0.9) ex_world ex_article)) = None \<and>
   error (snd (process_article ex_caps_impact_down ex_world ex_article))
     = Some NameError_message"
proof -
  have x1: "extraction_chain ex_caps_extraction_down (title ex_article) (content ex_article)
     = Inl ''llm down''"
    by (simp add: ex_caps_extraction_down_def)
  have x2: "extract_with_llm ex_caps_extraction_down (title ex_article) (content ex_article)
     = JObj [(''companies'', JArr []), (''sectors'', JArr []), (''regulators'', JArr []),
             (''people'', JArr []), (''events'', JArr [])]"
    using x1 by (rule extract_with_llm_raises)
  have xn: "nlp_ents ex_caps_extraction_down (title ex_article @ '' '' @ content ex_article)
      = Inr [(''HDFC Bank'', ''ORG'')]"
    by (simp add: ex_caps_extraction_down_def ex_caps_def)
  have xl: "llm_extracted_entities ex_caps_extraction_down
      (extract_with_llm ex_caps_extraction_down (title ex_article) (content ex_article)) = Inr []"
    unfolding x2 by (rule llm_extracted_entities_five_empty)
  have xf: "\<forall>d rows. flush_error ex_caps_extraction_down d rows = None"
    "\<forall>texts. embedding_error ex_caps_extraction_down texts = None"
    by (simp_all add: ex_caps_extraction_down_def ex_caps_def)
  note xp = pipeline_error_is_dedup_error[OF xn xl xf]
  have x3: "error (snd (pipeline ex_caps_extraction_down (Some 0.9) ex_world ex_article)) = None"
    unfolding xp by (simp add: DeduplicationAgent_process_bound_error initial_state_def)
  have x4: "error (snd (process_article ex_caps_extraction_down ex_world ex_article))
     = Some NameError_message"
    unfolding process_article_def xp by (simp add: process_article_dedup_error)
  have i1: "impact_chain ex_caps_impact_down (title ex_article) (content ex_article)
     ''HDFC Bank'' ''Banking'' ''RBI'' ''None'' = Inl ''llm down''"
    by (simp add: ex_caps_impact_down_def)
  have "\<forall>cs ss rs es. \<exists>m. impact_chain ex_caps_impact_down (title ex_article)
      (content ex_article) cs ss rs es = Inl m"
    by (simp add: ex_caps_impact_down_def)
  then have i2: "analyze_with_llm ex_caps_impact_down (title ex_article) (content ex_article)
     [mk_entity ''HDFC Bank'' ''COMPANY'' 0.9, mk_entity ''Banking'' ''SECTOR'' 0.7,
      mk_entity ''RBI'' ''REGULATOR'' 0.95] = []"
    by (rule analyze_with_llm_raises)
  have yn: "nlp_ents ex_caps_impact_down (title ex_article @ '' '' @ content ex_article)
      = Inr [(''HDFC Bank'', ''ORG'')]"
    by (simp add: ex_caps_impact_down_def ex_caps_def)
  have yl: "llm_extracted_entities ex_caps_impact_down
      (extract_with_llm ex_caps_impact_down (title ex_article) (content ex_article))
      = Inr [mk_entity ''HDFC Bank'' ''COMPANY'' 0.9, mk_entity ''RBI'' ''REGULATOR'' 0.95]"
    by (simp add: ex_caps_impact_down_def ex_caps_def extract_with_llm_def
          llm_extracted_entities_def llm_category_def py_get_def py_iter_def)
  have yf: "\<forall>d rows. flush_error ex_caps_impact_down d rows = None"
    "\<forall>texts. embedding_error ex_caps_impact_down texts = None"
    by (simp_all add: ex_caps_impact_down_def ex_caps_def)
  note yp = pipeline_error_is_dedup_error[OF yn yl yf]
  have i3: "error (snd (pipeline ex_caps_impact_down (Some 0.9) ex_world ex_article)) = None"
    unfolding yp by (simp add: DeduplicationAgent_process_bound_error initial_state_def)
  have i4: "error (snd (process_article ex_caps_impact_down ex_world ex_article))
     = Some NameError_message"
    unfolding process_article_def yp by (simp add: process_article_dedup_error)
  from x1 x2 x3 x4 i1 i2 i3 i4 show ?thesis by blast
qed

section \<open>Duplicate short-circuit: proofs\<close>

lemma ex_dedup_with_bound_threshold:
  "DeduplicationAgent_process ex_caps (Some 0.9) (vstore ex_indexed_world)
     (initial_state ex_article2)
     = (initial_state ex_article2)
         \<lparr>is_duplicate := True, duplicate_of := Some ''N1'',
          processing_metadata := [(''duplicate_similarity'', MFloat 1)]\<rparr>"
  by code_simp

lemma DeduplicationAgent_process_duplicate_pointer:
  assumes "\<not> is_duplicate st"
    and "is_duplicate (DeduplicationAgent_process caps glob vs st)"
  shows "duplicate_of (DeduplicationAgent_process caps glob vs st) \<noteq> None"
  using assms
  by (auto simp: DeduplicationAgent_process_def split: sum.splits list.splits prod.splits)

lemma duplicate_state_storage:
  assumes "is_duplicate st"
  shows "vstore (fst (StorageAgent_process caps w st)) = vstore w \<and>
         db_extracted_entities (db (fst (StorageAgent_process caps w st)))
           = db_extracted_entities (db w) \<and>
         db_stock_impacts (db (fst (StorageAgent_process caps w st))) = db_stock_impacts (db w) \<and>
         (db_news_articles (db (fst (StorageAgent_process caps w st))) = db_news_articles (db w) \<or>
          db_news_articles (db (fst (StorageAgent_process caps w st)))
            = db_news_articles (db w) @ [article_row st])"
  using assms
  by (simp add: StorageAgent_process_eq foldl_insert_storage_rows persisted_def Let_def
        split: option.splits)

lemma duplicate_state_short_circuit:
  assumes "is_duplicate st"
  shows "EntityExtractionAgent_process caps st = st"
    and "StockImpactAgent_process caps st = st"
  using assms
  by (simp_all add: EntityExtractionAgent_process_def StockImpactAgent_process_def)

text \<open>
  C1. When the state is a duplicate after the deduplication stage, the extraction and
  impact stages return it untouched, so the final state has no entities and no stock
  impacts and still carries the duplicate pointer. The storage stage then writes at most
  one row, the article row with \<open>is_duplicate\<close> true and the pointer (none if the commit
  fails): it adds no entity row, no impact row, and leaves the similarity index as it
  was.
\<close>

theorem duplicate_short_circuit:
  assumes "is_duplicate (DeduplicationAgent_process caps glob (vstore w) (initial_state a))"
  shows "(case pipeline caps glob w a of
            (w', st') \<Rightarrow>
              is_duplicate st' \<and> duplicate_of st' \<noteq> None \<and>
              entities st' = [] \<and> stock_impacts st' = [] \<and>
              vstore w' = vstore w \<and>
              db_extracted_entities (db w') = db_extracted_entities (db w) \<and>
              db_stock_impacts (db w') = db_stock_impacts (db w) \<and>
              (db_news_articles (db w') = db_news_articles (db w) \<or>
               db_news_articles (db w') =
                 db_news_articles (db w) @
                 [NewsArticleDB (article_id a) (title a) (content a) (source a)
                    (published_at a) (url a) True (duplicate_of st')]))"
proof -
  let ?d = "DeduplicationAgent_process caps glob (vstore w) (initial_state a)"
  have p: "pipeline caps glob w a = StorageAgent_process caps w ?d"
    unfolding pipeline_def using duplicate_state_short_circuit[OF assms] by simp
  have fr: "article ?d = a" "entities ?d = []" "stock_impacts ?d = []"
    by (simp_all add: DeduplicationAgent_process_frame initial_state_def)
  have ptr: "duplicate_of ?d \<noteq> None"
    using assms by (intro DeduplicationAgent_process_duplicate_pointer) (simp_all add: initial_state_def)
  have row: "article_row ?d =
      NewsArticleDB (article_id a) (title a) (content a) (source a) (published_at a) (url a)
        True (duplicate_of ?d)"
    using assms fr(1) by (simp add: article_row_def Let_def)
  have st: "is_duplicate (snd (StorageAgent_process caps w ?d))"
    "duplicate_of (snd (StorageAgent_process caps w ?d)) = duplicate_of ?d"
    "entities (snd (StorageAgent_process caps w ?d)) = []"
    "stock_impacts (snd (StorageAgent_process caps w ?d)) = []"
    using assms fr by (simp_all add: StorageAgent_process_frame)
  show ?thesis
    unfolding p case_prod_unfold
    using st ptr duplicate_state_storage[OF assms, of caps w] row
    by simp
qed

theorem duplicate_short_circuit_witness:
  "is_duplicate (DeduplicationAgent_process ex_caps (Some 0.9) (vstore ex_indexed_world)
                   (initial_state ex_article2)) \<and>
   entities (snd (pipeline ex_caps (Some 0.9) ex_indexed_world ex_article2)) = [] \<and>
   stock_impacts (snd (pipeline ex_caps (Some 0.9) ex_indexed_world ex_article2)) = [] \<and>
   vstore (fst (pipeline ex_caps (Some 0.9) ex_indexed_world ex_article2))
     = vstore ex_indexed_world \<and>
   db_extracted_entities (db (fst (pipeline ex_caps (Some 0.9) ex_indexed_world ex_article2)))
     = db_extracted_entities (db ex_indexed_world) \<and>
   db_stock_impacts (db (fst (pipeline ex_caps (Some 0.9) ex_indexed_world ex_article2)))
     = db_stock_impacts (db ex_indexed_world) \<and>
   db_news_articles (db (fst (pipeline ex_caps (Some 0.9) ex_indexed_world ex_article2)))
     = [NewsArticleDB ''N2'' ''HDFC Bank reports profit'' ''RBI approves'' ''X'' ''T'' None True
          (Some ''N1'')]"
proof -
  have h: "is_duplicate (DeduplicationAgent_process ex_caps (Some 0.9) (vstore ex_indexed_world)
                   (initial_state ex_article2))"
    by (simp add: ex_dedup_with_bound_threshold)
  have n: "db_news_articles (db (fst (pipeline ex_caps (Some 0.9) ex_indexed_world ex_article2)))
     = [NewsArticleDB ''N2'' ''HDFC Bank reports profit'' ''RBI approves'' ''X'' ''T'' None True
          (Some ''N1'')]"
    by code_simp
  from duplicate_short_circuit[OF h] h n show ?thesis
    by (simp add: case_prod_unfold)
qed

end
